theory Spec2Isabelle
  imports Main
begin

section \<open>Raw storage and element types\<close>

text \<open>
  A cell of the storage that \<^verbatim>\<open>operator new\<close> returned is either uninitialised raw memory
  or holds a constructed object of type \<^verbatim>\<open>T\<close>. A block is the list of its cells: an
  access at an index outside the list is an access outside the storage. A pointer into
  a block is an offset into the list, an iterator of a vector is its offset from
  \<^verbatim>\<open>begin()\<close>.
\<close>

datatype 'a slot = Raw | Obj 'a

datatype exn = bad_alloc | elem_exn

text \<open>
  The outcome of a piece of code: it returns, it throws, or its behaviour is
  undefined (a destructor call or a read on raw memory, an access outside the
  storage, a violated precondition).
\<close>

datatype ('x, 'e) res = Val 'x | Raise 'e | Undef

text \<open>
  \<^verbatim>\<open>size_t\<close> has 64 bits. The one product the code computes in \<^verbatim>\<open>size_t\<close> without a
  check is \<^verbatim>\<open>n * sizeof(T)\<close> in \<^verbatim>\<open>RawMemory::Allocate\<close>, and \<^verbatim>\<open>Size() * 2\<close> where a
  vector grows; both wrap. \<^verbatim>\<open>size_\<close> is incremented only after an object has been
  constructed in the cell \<^verbatim>\<open>size_\<close>, which then lies inside the storage, so that this
  increment does not wrap.
\<close>

definition SIZE_MAX :: nat where
  "SIZE_MAX = 18446744073709551615"

definition PTRDIFF_MAX :: nat where
  "PTRDIFF_MAX = 9223372036854775807"

definition size_t_mul :: "nat \<Rightarrow> nat \<Rightarrow> nat" where
  "size_t_mul a b = (a * b) mod (SIZE_MAX + 1)"

text \<open>
  The template parameter \<^verbatim>\<open>T\<close> and the allocator. \<open>sizeof\<close> is \<^verbatim>\<open>sizeof(T)\<close>.
  \<open>nothrow_move_constructible\<close> and \<open>copy_constructible\<close> are the two type traits the code
  branches on with \<^verbatim>\<open>if constexpr\<close>. \<open>copy_throws x\<close> and \<open>move_throws x\<close> say whether the
  construction of a \<^verbatim>\<open>T\<close> from an lvalue and from an rvalue of value \<open>x\<close> throws, and
  \<open>moved_from x\<close> is the value left in the source of a construction or an assignment
  from an rvalue. \<open>copy_assign_throws x\<close> and \<open>move_assign_throws x\<close> say whether the
  assignment of the value \<open>x\<close> throws. \<open>braced x\<close> is the value of \<^verbatim>\<open>T{t}\<close> for an argument
  \<open>t\<close> of type \<^verbatim>\<open>T\<close> from which \<^verbatim>\<open>T(t)\<close> builds \<open>x\<close>: the same value, unless \<^verbatim>\<open>T\<close> has a
  constructor from an initializer list that takes it. \<open>value_init\<close> is the result of
  \<^verbatim>\<open>T()\<close>, \<open>None\<close> when it throws. \<open>alloc_fails b\<close> says whether \<^verbatim>\<open>operator new\<close> throws
  for a request of \<open>b\<close> bytes. A constructor or an assignment that throws leaves its
  source and its target as they were; destructors do not throw.
\<close>

record 'a elem_type =
  sizeof :: nat
  nothrow_move_constructible :: bool
  copy_constructible :: bool
  copy_throws :: "'a \<Rightarrow> bool"
  move_throws :: "'a \<Rightarrow> bool"
  moved_from :: "'a \<Rightarrow> 'a"
  copy_assign_throws :: "'a \<Rightarrow> bool"
  move_assign_throws :: "'a \<Rightarrow> bool"
  braced :: "'a \<Rightarrow> 'a"
  value_init :: "'a option"
  alloc_fails :: "nat \<Rightarrow> bool"

text \<open>
  \<^verbatim>\<open>RawMemory::Allocate(n)\<close>: no call of \<^verbatim>\<open>operator new\<close> for \<open>n = 0\<close>; otherwise the
  request is for \<^verbatim>\<open>n * sizeof(T)\<close> bytes, computed in \<^verbatim>\<open>size_t\<close>, and the storage returned
  has room for as many cells as fit into that many bytes, which are fewer than \<open>n\<close>
  when the product wrapped. No object is larger than \<^verbatim>\<open>PTRDIFF_MAX\<close> bytes: a request
  above it fails.
\<close>

definition Allocate :: "'a elem_type \<Rightarrow> nat \<Rightarrow> 'a slot list option" where
  "Allocate T n =
     (if n \<noteq> 0 then
        (if PTRDIFF_MAX < size_t_mul n (sizeof T) \<or> alloc_fails T (size_t_mul n (sizeof T))
         then None
         else Some (replicate (size_t_mul n (sizeof T) div sizeof T) Raw))
      else Some [])"

text \<open>\<^verbatim>\<open>T(x)\<close> for an lvalue and for an rvalue \<open>x\<close>; \<open>None\<close> when the constructor throws.\<close>

definition copy_construct :: "'a elem_type \<Rightarrow> 'a \<Rightarrow> 'a option" where
  "copy_construct T x = (if copy_throws T x then None else Some x)"

definition move_construct :: "'a elem_type \<Rightarrow> 'a \<Rightarrow> 'a option" where
  "move_construct T x =
     (if \<not> nothrow_move_constructible T \<and> move_throws T x then None else Some x)"

text \<open>
  What a caller passes where the code takes \<^verbatim>\<open>const T&\<close> or \<^verbatim>\<open>T&&\<close>: an lvalue or an
  rvalue of value \<open>x\<close> that is no element of the vector, or a reference to the element
  at an index of the vector itself, as in \<^verbatim>\<open>v.Insert(pos, v[i])\<close> and
  \<^verbatim>\<open>v.Insert(pos, std::move(v[i]))\<close>.
\<close>

datatype 'a value_ref = Lvalue 'a | Rvalue 'a | Element nat | MovedElement nat

text \<open>
  The arguments \<^verbatim>\<open>args...\<close> of the variadic templates: one forwarded reference to a
  \<^verbatim>\<open>T\<close>, or arguments of other types that refer to no element of the vector. These are
  given by what \<^verbatim>\<open>T(args...)\<close> and what \<^verbatim>\<open>T{args...}\<close> construct from them, in this order
  (\<open>None\<close> when the constructor throws): the two differ for a type with a constructor
  from an initializer list.
\<close>

datatype 'a ctor_args = Forward "'a value_ref" | Args "'a option" "'a option"

text \<open>
  The construction of a \<^verbatim>\<open>T\<close> from a forwarded reference, at a moment when the block of
  the vector is \<open>d\<close>. It returns the value built and the block, in which the element a
  \<open>MovedElement\<close> refers to is now moved-from. A reference to a cell that holds no
  object is dangling.
\<close>

definition construct_from :: "'a elem_type \<Rightarrow> 'a value_ref \<Rightarrow> 'a slot list \<Rightarrow> ('a \<times> 'a slot list, unit) res"
where
  "construct_from T r d =
     (case r of
        Lvalue x \<Rightarrow> (case copy_construct T x of None \<Rightarrow> Raise () | Some y \<Rightarrow> Val (y, d))
      | Rvalue x \<Rightarrow> (case move_construct T x of None \<Rightarrow> Raise () | Some y \<Rightarrow> Val (y, d))
      | Element i \<Rightarrow>
          (if i < length d then
             (case d ! i of
                Raw \<Rightarrow> Undef
              | Obj x \<Rightarrow> (case copy_construct T x of None \<Rightarrow> Raise () | Some y \<Rightarrow> Val (y, d)))
           else Undef)
      | MovedElement i \<Rightarrow>
          (if i < length d then
             (case d ! i of
                Raw \<Rightarrow> Undef
              | Obj x \<Rightarrow>
                  (case move_construct T x of
                     None \<Rightarrow> Raise ()
                   | Some y \<Rightarrow> Val (y, d[i := Obj (moved_from T x)])))
           else Undef))"

text \<open>\<^verbatim>\<open>T(args...)\<close> and \<^verbatim>\<open>T{args...}\<close>.\<close>

definition direct_init :: "'a elem_type \<Rightarrow> 'a ctor_args \<Rightarrow> 'a slot list \<Rightarrow> ('a \<times> 'a slot list, unit) res"
where
  "direct_init T args d =
     (case args of
        Forward r \<Rightarrow> construct_from T r d
      | Args p b \<Rightarrow> (case p of None \<Rightarrow> Raise () | Some x \<Rightarrow> Val (x, d)))"

definition list_init :: "'a elem_type \<Rightarrow> 'a ctor_args \<Rightarrow> 'a slot list \<Rightarrow> ('a \<times> 'a slot list, unit) res"
where
  "list_init T args d =
     (case args of
        Forward r \<Rightarrow>
          (case construct_from T r d of
             Val (x, d') \<Rightarrow> Val (braced T x, d')
           | Raise u \<Rightarrow> Raise u
           | Undef \<Rightarrow> Undef)
      | Args p b \<Rightarrow> (case b of None \<Rightarrow> Raise () | Some x \<Rightarrow> Val (x, d)))"

text \<open>
  Placement new. \<open>construct_in\<close> is \<^verbatim>\<open>new (data_ + i) T(args...)\<close>, into the block \<open>d\<close> of
  the vector itself; \<open>construct_at\<close> is \<^verbatim>\<open>new (new_data + i) T(args...)\<close>, into another
  block \<open>buf\<close> while the block of the vector is \<open>d\<close>, and returns both blocks. The address
  must be that of a raw cell of the storage.
\<close>

definition construct_in :: "'a elem_type \<Rightarrow> 'a slot list \<Rightarrow> nat \<Rightarrow> 'a ctor_args \<Rightarrow> ('a slot list, unit) res"
where
  "construct_in T d i args =
     (if i < length d \<and> d ! i = Raw then
        (case direct_init T args d of
           Val (x, d') \<Rightarrow> Val (d'[i := Obj x])
         | Raise u \<Rightarrow> Raise u
         | Undef \<Rightarrow> Undef)
      else Undef)"

definition construct_at ::
  "'a elem_type \<Rightarrow> 'a slot list \<Rightarrow> nat \<Rightarrow> 'a ctor_args \<Rightarrow> 'a slot list
     \<Rightarrow> ('a slot list \<times> 'a slot list, unit) res"
where
  "construct_at T buf i args d =
     (if i < length buf \<and> buf ! i = Raw then
        (case direct_init T args d of
           Val (x, d') \<Rightarrow> Val (buf[i := Obj x], d')
         | Raise u \<Rightarrow> Raise u
         | Undef \<Rightarrow> Undef)
      else Undef)"

section \<open>The algorithms of the standard library the code calls\<close>

text \<open>
  \<^verbatim>\<open>std::destroy_n(buf + off, n)\<close> runs the destructor of \<open>n\<close> objects; on a cell that
  holds no object the behaviour is undefined.
\<close>

fun destroy_n :: "'a slot list \<Rightarrow> nat \<Rightarrow> nat \<Rightarrow> 'a slot list option" where
  "destroy_n buf off 0 = Some buf"
| "destroy_n buf off (Suc n) =
     (if off < length buf \<and> buf ! off \<noteq> Raw then destroy_n (buf[off := Raw]) (Suc off) n
      else None)"

text \<open>
  \<^verbatim>\<open>std::uninitialized_copy_n(src + soff, n, dst + doff)\<close>. When a copy constructor throws,
  the objects already constructed in the destination are destroyed and the exception
  is rethrown, so that the destination is as before the call: \<open>Raise\<close> carries nothing.
\<close>

fun uninitialized_copy_n ::
  "'a elem_type \<Rightarrow> 'a slot list \<Rightarrow> nat \<Rightarrow> nat \<Rightarrow> 'a slot list \<Rightarrow> nat \<Rightarrow> ('a slot list, unit) res"
where
  "uninitialized_copy_n T src soff 0 dst doff = Val dst"
| "uninitialized_copy_n T src soff (Suc n) dst doff =
     (if soff < length src \<and> doff < length dst \<and> dst ! doff = Raw then
        (case src ! soff of
           Raw \<Rightarrow> Undef
         | Obj x \<Rightarrow>
             (case copy_construct T x of
                None \<Rightarrow> Raise ()
              | Some y \<Rightarrow> uninitialized_copy_n T src (Suc soff) n (dst[doff := Obj y]) (Suc doff)))
      else Undef)"

text \<open>
  \<^verbatim>\<open>std::uninitialized_move_n(src + soff, n, dst + doff)\<close>. It returns the source block,
  whose objects are now moved-from, and the destination. When a move constructor
  throws, the destination is rolled back as for a copy, but the objects moved so far
  stay moved-from: \<open>Raise\<close> carries the source block.
\<close>

fun uninitialized_move_n ::
  "'a elem_type \<Rightarrow> 'a slot list \<Rightarrow> nat \<Rightarrow> nat \<Rightarrow> 'a slot list \<Rightarrow> nat
     \<Rightarrow> ('a slot list \<times> 'a slot list, 'a slot list) res"
where
  "uninitialized_move_n T src soff 0 dst doff = Val (src, dst)"
| "uninitialized_move_n T src soff (Suc n) dst doff =
     (if soff < length src \<and> doff < length dst \<and> dst ! doff = Raw then
        (case src ! soff of
           Raw \<Rightarrow> Undef
         | Obj x \<Rightarrow>
             (case move_construct T x of
                None \<Rightarrow> Raise src
              | Some y \<Rightarrow>
                  uninitialized_move_n T (src[soff := Obj (moved_from T x)]) (Suc soff) n
                    (dst[doff := Obj y]) (Suc doff)))
      else Undef)"

text \<open>\<^verbatim>\<open>std::uninitialized_value_construct_n(buf + off, n)\<close>, with the same roll-back.\<close>

fun uninitialized_value_construct_n ::
  "'a elem_type \<Rightarrow> 'a slot list \<Rightarrow> nat \<Rightarrow> nat \<Rightarrow> ('a slot list, unit) res"
where
  "uninitialized_value_construct_n T buf off 0 = Val buf"
| "uninitialized_value_construct_n T buf off (Suc n) =
     (if off < length buf \<and> buf ! off = Raw then
        (case value_init T of
           None \<Rightarrow> Raise ()
         | Some y \<Rightarrow> uninitialized_value_construct_n T (buf[off := Obj y]) (Suc off) n)
      else Undef)"

text \<open>
  Assignments need an object on both sides and may throw. \<open>copy_assign\<close> is
  \<^verbatim>\<open>dst[d] = src[s]\<close>, \<open>move_assign\<close> is \<^verbatim>\<open>buf[d] = std::move(buf[s])\<close> inside one block,
  \<open>assign_value\<close> is \<^verbatim>\<open>buf[d] = std::move(tmp)\<close> for a local \<open>tmp\<close> of value \<open>x\<close>.
\<close>

definition copy_assign ::
  "'a elem_type \<Rightarrow> 'a slot list \<Rightarrow> nat \<Rightarrow> 'a slot list \<Rightarrow> nat \<Rightarrow> ('a slot list, unit) res"
where
  "copy_assign T src s dst d =
     (if s < length src \<and> d < length dst \<and> dst ! d \<noteq> Raw then
        (case src ! s of
           Raw \<Rightarrow> Undef
         | Obj x \<Rightarrow> (if copy_assign_throws T x then Raise () else Val (dst[d := Obj x])))
      else Undef)"

definition move_assign :: "'a elem_type \<Rightarrow> 'a slot list \<Rightarrow> nat \<Rightarrow> nat \<Rightarrow> ('a slot list, unit) res" where
  "move_assign T buf s d =
     (if s < length buf \<and> d < length buf \<and> buf ! d \<noteq> Raw then
        (case buf ! s of
           Raw \<Rightarrow> Undef
         | Obj x \<Rightarrow>
             (if move_assign_throws T x then Raise ()
              else Val (buf[s := Obj (moved_from T x), d := Obj x])))
      else Undef)"

definition assign_value :: "'a elem_type \<Rightarrow> 'a slot list \<Rightarrow> nat \<Rightarrow> 'a \<Rightarrow> ('a slot list, unit) res" where
  "assign_value T buf d x =
     (if d < length buf \<and> buf ! d \<noteq> Raw then
        (if move_assign_throws T x then Raise () else Val (buf[d := Obj x]))
      else Undef)"

text \<open>
  \<^verbatim>\<open>std::copy(src + first, src + first + n, dst + d_first)\<close>,
  \<^verbatim>\<open>std::move(buf + first, buf + first + n, buf + d_first)\<close> and
  \<^verbatim>\<open>std::move_backward(buf + lst - n, buf + lst, buf + d_last)\<close>; a range is given by
  one end and its length. When an assignment throws, the elements assigned so far stay
  assigned: \<open>Raise\<close> carries the destination block.
\<close>

fun std_copy ::
  "'a elem_type \<Rightarrow> 'a slot list \<Rightarrow> nat \<Rightarrow> nat \<Rightarrow> 'a slot list \<Rightarrow> nat \<Rightarrow> ('a slot list, 'a slot list) res"
where
  "std_copy T src first 0 dst d_first = Val dst"
| "std_copy T src first (Suc n) dst d_first =
     (case copy_assign T src first dst d_first of
        Val dst' \<Rightarrow> std_copy T src (Suc first) n dst' (Suc d_first)
      | Raise _ \<Rightarrow> Raise dst
      | Undef \<Rightarrow> Undef)"

fun std_move ::
  "'a elem_type \<Rightarrow> 'a slot list \<Rightarrow> nat \<Rightarrow> nat \<Rightarrow> nat \<Rightarrow> ('a slot list, 'a slot list) res"
where
  "std_move T buf first 0 d_first = Val buf"
| "std_move T buf first (Suc n) d_first =
     (case move_assign T buf first d_first of
        Val buf' \<Rightarrow> std_move T buf' (Suc first) n (Suc d_first)
      | Raise _ \<Rightarrow> Raise buf
      | Undef \<Rightarrow> Undef)"

fun std_move_backward ::
  "'a elem_type \<Rightarrow> 'a slot list \<Rightarrow> nat \<Rightarrow> nat \<Rightarrow> nat \<Rightarrow> ('a slot list, 'a slot list) res"
where
  "std_move_backward T buf 0 lst d_last = Val buf"
| "std_move_backward T buf (Suc n) lst d_last =
     (if 0 < lst \<and> 0 < d_last then
        (case move_assign T buf (lst - 1) (d_last - 1) of
           Val buf' \<Rightarrow> std_move_backward T buf' n (lst - 1) (d_last - 1)
         | Raise _ \<Rightarrow> Raise buf
         | Undef \<Rightarrow> Undef)
      else Undef)"

section \<open>The vector\<close>

text \<open>
  The members of the class. \<open>m_data\<close> and \<open>m_capacity\<close> are the members \<^verbatim>\<open>buffer_\<close> and
  \<^verbatim>\<open>capacity_\<close> of the \<^verbatim>\<open>RawMemory\<close> \<^verbatim>\<open>data_\<close>: the cells of the storage \<^verbatim>\<open>buffer_\<close> points
  to, and the number of cells the \<^verbatim>\<open>RawMemory\<close> was constructed for. \<open>m_size\<close> is
  \<^verbatim>\<open>size_\<close>.
\<close>

record 'a Vector =
  m_data :: "'a slot list"
  m_capacity :: nat
  m_size :: nat

definition Size :: "'a Vector \<Rightarrow> nat" where
  "Size v = m_size v"

definition Capacity :: "'a Vector \<Rightarrow> nat" where
  "Capacity v = m_capacity v"

text \<open>\<^verbatim>\<open>operator[]\<close>; \<open>None\<close> where the assertion \<^verbatim>\<open>index < size_\<close> fails or the cell is raw.\<close>

definition at :: "'a Vector \<Rightarrow> nat \<Rightarrow> 'a option" where
  "at v index =
     (if index < m_size v \<and> index < length (m_data v) then
        (case m_data v ! index of Raw \<Rightarrow> None | Obj x \<Rightarrow> Some x)
      else None)"

text \<open>The values of the live elements, in order.\<close>

fun objs :: "'a slot list \<Rightarrow> 'a list" where
  "objs [] = []"
| "objs (Raw # cs) = objs cs"
| "objs (Obj x # cs) = x # objs cs"

definition elements :: "'a Vector \<Rightarrow> 'a list" where
  "elements v = objs (take (m_size v) (m_data v))"

text \<open>
  The invariant of the class: \<open>m_size \<le> m_capacity\<close>, the storage has \<open>m_capacity\<close>
  cells, the cells below \<open>m_size\<close> hold objects, the cells from \<open>m_size\<close> on are raw.
\<close>

definition vector_inv :: "'a Vector \<Rightarrow> bool" where
  "vector_inv v \<longleftrightarrow>
     m_size v \<le> m_capacity v \<and> m_capacity v = length (m_data v) \<and>
     list_all (\<lambda>c. c \<noteq> Raw) (take (m_size v) (m_data v)) \<and>
     list_all (\<lambda>c. c = Raw) (drop (m_size v) (m_data v))"

text \<open>
  The storage of a vector is an object of at most \<^verbatim>\<open>PTRDIFF_MAX\<close> bytes, and so is one
  element.
\<close>

definition fits :: "'a elem_type \<Rightarrow> 'a Vector \<Rightarrow> bool" where
  "fits T v \<longleftrightarrow>
     0 < sizeof T \<and> sizeof T \<le> PTRDIFF_MAX \<and> m_capacity v * sizeof T \<le> PTRDIFF_MAX"

subsection \<open>Construction, destruction, swap\<close>

text \<open>
  A constructor that throws leaves no vector: \<open>Raise (e, blk)\<close> carries the exception
  and the content of the block at the moment the destructor of \<^verbatim>\<open>data_\<close> releases it
  (\<open>[]\<close> when none was allocated).
\<close>

definition Vector_default :: "'a Vector" where
  "Vector_default = \<lparr>m_data = [], m_capacity = 0, m_size = 0\<rparr>"

definition Vector_sized :: "'a elem_type \<Rightarrow> nat \<Rightarrow> ('a Vector, exn \<times> 'a slot list) res" where
  "Vector_sized T n =
     (case Allocate T n of
        None \<Rightarrow> Raise (bad_alloc, [])
      | Some d \<Rightarrow>
          (case uninitialized_value_construct_n T d 0 n of
             Val d' \<Rightarrow> Val \<lparr>m_data = d', m_capacity = n, m_size = n\<rparr>
           | Raise _ \<Rightarrow> Raise (elem_exn, d)
           | Undef \<Rightarrow> Undef))"

definition Vector_copy :: "'a elem_type \<Rightarrow> 'a Vector \<Rightarrow> ('a Vector, exn \<times> 'a slot list) res" where
  "Vector_copy T other =
     (case Allocate T (m_size other) of
        None \<Rightarrow> Raise (bad_alloc, [])
      | Some d \<Rightarrow>
          (case uninitialized_copy_n T (m_data other) 0 (m_size other) d 0 of
             Val d' \<Rightarrow> Val \<lparr>m_data = d', m_capacity = m_size other, m_size = m_size other\<rparr>
           | Raise _ \<Rightarrow> Raise (elem_exn, d)
           | Undef \<Rightarrow> Undef))"

text \<open>\<^verbatim>\<open>~Vector\<close>: the block it leaves, \<open>None\<close> when a destroyed cell holds no object.\<close>

definition Vector_dtor :: "'a Vector \<Rightarrow> 'a slot list option" where
  "Vector_dtor v = destroy_n (m_data v) 0 (m_size v)"

text \<open>\<^verbatim>\<open>Swap\<close> returns this vector and the other one, in this order.\<close>

definition Swap :: "'a Vector \<Rightarrow> 'a Vector \<Rightarrow> 'a Vector \<times> 'a Vector" where
  "Swap v other =
     (\<lparr>m_data = m_data other, m_capacity = m_capacity other, m_size = m_size other\<rparr>,
      \<lparr>m_data = m_data v, m_capacity = m_capacity v, m_size = m_size v\<rparr>)"

text \<open>
  \<^verbatim>\<open>Vector(Vector&& other)\<close>: the members are default-initialised, then swapped with
  \<open>other\<close>. It returns the new vector and \<open>other\<close>.
\<close>

definition Vector_move :: "'a Vector \<Rightarrow> 'a Vector \<times> 'a Vector" where
  "Vector_move other = Swap Vector_default other"

text \<open>\<^verbatim>\<open>operator=(Vector&& rhs)\<close> returns this vector and \<open>rhs\<close>.\<close>

definition MoveAssign :: "'a Vector \<Rightarrow> 'a Vector \<Rightarrow> 'a Vector \<times> 'a Vector" where
  "MoveAssign rhs v = Swap v rhs"

subsection \<open>The mutating member functions\<close>

text \<open>
  A member function returns the vector after the call (and its result, if it has one),
  or throws. \<open>Raise (e, v, blk)\<close> says that the exception \<open>e\<close> leaves the function, that
  the vector is \<open>v\<close> then, and that \<open>blk\<close> is the content of the freshly allocated block
  at the moment the destructor of the local \<^verbatim>\<open>RawMemory\<close> releases it (\<open>[]\<close> when no
  block was allocated): an object still in \<open>blk\<close> is never destroyed.
\<close>

type_synonym 'a failure = "exn \<times> 'a Vector \<times> 'a slot list"

definition Reserve :: "'a elem_type \<Rightarrow> nat \<Rightarrow> 'a Vector \<Rightarrow> ('a Vector, 'a failure) res" where
  "Reserve T new_capacity v =
     (if new_capacity \<le> Capacity v then Val v
      else
        (case Allocate T new_capacity of
           None \<Rightarrow> Raise (bad_alloc, v, [])
         | Some new_data \<Rightarrow>
             (case
                (if nothrow_move_constructible T \<or> \<not> copy_constructible T then
                   (case uninitialized_move_n T (m_data v) 0 (m_size v) new_data 0 of
                      Val (d, nd) \<Rightarrow> Val (d, nd)
                    | Raise d \<Rightarrow> Raise (elem_exn, v\<lparr>m_data := d\<rparr>, new_data)
                    | Undef \<Rightarrow> Undef)
                 else
                   (case uninitialized_copy_n T (m_data v) 0 (m_size v) new_data 0 of
                      Val nd \<Rightarrow> Val (m_data v, nd)
                    | Raise _ \<Rightarrow> Raise (elem_exn, v, new_data)
                    | Undef \<Rightarrow> Undef))
              of
                Val (d, nd) \<Rightarrow>
                  (case destroy_n d 0 (m_size v) of
                     None \<Rightarrow> Undef
                   | Some _ \<Rightarrow> Val \<lparr>m_data = nd, m_capacity = new_capacity, m_size = m_size v\<rparr>)
              | Raise r \<Rightarrow> Raise r
              | Undef \<Rightarrow> Undef)))"

definition Resize :: "'a elem_type \<Rightarrow> nat \<Rightarrow> 'a Vector \<Rightarrow> ('a Vector, 'a failure) res" where
  "Resize T new_size v =
     (case Reserve T new_size v of
        Raise r \<Rightarrow> Raise r
      | Undef \<Rightarrow> Undef
      | Val v1 \<Rightarrow>
          (if m_size v1 < new_size then
             (case uninitialized_value_construct_n T (m_data v1) (m_size v1) (new_size - m_size v1) of
                Val d \<Rightarrow> Val (v1\<lparr>m_data := d, m_size := new_size\<rparr>)
              | Raise _ \<Rightarrow> Raise (elem_exn, v1, [])
              | Undef \<Rightarrow> Undef)
           else if m_size v1 > new_size then
             (case destroy_n (m_data v1) new_size (m_size v1 - new_size) of
                None \<Rightarrow> Undef
              | Some d \<Rightarrow> Val (v1\<lparr>m_data := d, m_size := new_size\<rparr>))
           else Val (v1\<lparr>m_size := new_size\<rparr>)))"

text \<open>\<^verbatim>\<open>PopBack\<close> on an empty vector is undefined.\<close>

definition PopBack :: "'a Vector \<Rightarrow> ('a Vector, 'a failure) res" where
  "PopBack v =
     (if m_size v = 0 then Undef
      else
        (case destroy_n (m_data v) (m_size v - 1) 1 of
           None \<Rightarrow> Undef
         | Some d \<Rightarrow> Val (v\<lparr>m_data := d, m_size := m_size v - 1\<rparr>)))"

text \<open>
  \<^verbatim>\<open>EmplaceBack\<close> returns the vector and the index of the element its result refers to.
  On the growth path the new element is constructed first, while the block of the
  vector is still as the caller left it.
\<close>

definition EmplaceBack ::
  "'a elem_type \<Rightarrow> 'a ctor_args \<Rightarrow> 'a Vector \<Rightarrow> ('a Vector \<times> nat, 'a failure) res"
where
  "EmplaceBack T args v =
     (if Capacity v > Size v then
        (case construct_in T (m_data v) (Size v) args of
           Val d \<Rightarrow> Val (v\<lparr>m_data := d, m_size := m_size v + 1\<rparr>, Size v)
         | Raise _ \<Rightarrow> Raise (elem_exn, v, [])
         | Undef \<Rightarrow> Undef)
      else
        (case Allocate T (if Size v = 0 then 1 else size_t_mul (Size v) 2) of
           None \<Rightarrow> Raise (bad_alloc, v, [])
         | Some new_data \<Rightarrow>
             (case construct_at T new_data (Size v) args (m_data v) of
                Raise _ \<Rightarrow> Raise (elem_exn, v, new_data)
              | Undef \<Rightarrow> Undef
              | Val (nd0, d0) \<Rightarrow>
                  (case
                     (if nothrow_move_constructible T \<or> \<not> copy_constructible T then
                        (case uninitialized_move_n T d0 0 (Size v) nd0 0 of
                           Val (d, nd) \<Rightarrow> Val (d, nd)
                         | Raise d \<Rightarrow> Raise (elem_exn, v\<lparr>m_data := d\<rparr>, nd0)
                         | Undef \<Rightarrow> Undef)
                      else
                        (case uninitialized_copy_n T d0 0 (Size v) nd0 0 of
                           Val nd \<Rightarrow> Val (d0, nd)
                         | Raise _ \<Rightarrow> Raise (elem_exn, v\<lparr>m_data := d0\<rparr>, nd0)
                         | Undef \<Rightarrow> Undef))
                   of
                     Val (d, nd) \<Rightarrow>
                       (case destroy_n d 0 (Size v) of
                          None \<Rightarrow> Undef
                        | Some _ \<Rightarrow>
                            Val (\<lparr>m_data = nd,
                                  m_capacity = (if Size v = 0 then 1 else size_t_mul (Size v) 2),
                                  m_size = m_size v + 1\<rparr>, Size v))
                   | Raise r \<Rightarrow> Raise r
                   | Undef \<Rightarrow> Undef))))"

text \<open>\<^verbatim>\<open>PushBack(Type&& value)\<close> forwards its one argument to \<^verbatim>\<open>EmplaceBack\<close>.\<close>

definition PushBack :: "'a elem_type \<Rightarrow> 'a ctor_args \<Rightarrow> 'a Vector \<Rightarrow> ('a Vector, 'a failure) res" where
  "PushBack T val v =
     (case EmplaceBack T val v of
        Val (v', _) \<Rightarrow> Val v'
      | Raise r \<Rightarrow> Raise r
      | Undef \<Rightarrow> Undef)"

text \<open>
  \<^verbatim>\<open>BigCapacity\<close>, the branch of \<^verbatim>\<open>Emplace\<close> with spare capacity. \<open>offset\<close> is
  \<^verbatim>\<open>pos - data_.GetAddress()\<close>. The temporary is built with braces, first; then the
  last element is moved into the cell \<^verbatim>\<open>data_ + size_\<close>, the elements from \<open>offset\<close> on
  are moved one cell to the right, from the back, and the temporary is move-assigned
  to the cell at \<open>offset\<close>. \<^verbatim>\<open>size_\<close> is incremented last.
\<close>

definition BigCapacity ::
  "'a elem_type \<Rightarrow> nat \<Rightarrow> 'a ctor_args \<Rightarrow> 'a Vector \<Rightarrow> ('a Vector, 'a failure) res"
where
  "BigCapacity T offset args v =
     (if offset = m_size v then
        (case EmplaceBack T args v of
           Val (v', _) \<Rightarrow> Val v'
         | Raise r \<Rightarrow> Raise r
         | Undef \<Rightarrow> Undef)
      else
        (case list_init T args (m_data v) of
           Raise _ \<Rightarrow> Raise (elem_exn, v, [])
         | Undef \<Rightarrow> Undef
         | Val (tmp_new_elem, d) \<Rightarrow>
             (if 0 < m_size v then
                (case construct_in T d (m_size v) (Forward (MovedElement (m_size v - 1))) of
                   Raise _ \<Rightarrow> Raise (elem_exn, v\<lparr>m_data := d\<rparr>, [])
                 | Undef \<Rightarrow> Undef
                 | Val d0 \<Rightarrow>
                     (case std_move_backward T d0 (m_size v - 1 - offset) (m_size v - 1)
                             (m_size v) of
                        Raise d1 \<Rightarrow> Raise (elem_exn, v\<lparr>m_data := d1\<rparr>, [])
                      | Undef \<Rightarrow> Undef
                      | Val d1 \<Rightarrow>
                          (case assign_value T d1 offset tmp_new_elem of
                             Raise _ \<Rightarrow> Raise (elem_exn, v\<lparr>m_data := d1\<rparr>, [])
                           | Undef \<Rightarrow> Undef
                           | Val d2 \<Rightarrow> Val (v\<lparr>m_data := d2, m_size := m_size v + 1\<rparr>))))
              else Undef)))"

text \<open>
  \<^verbatim>\<open>CompletelyFilled\<close>, the branch of \<^verbatim>\<open>Emplace\<close> without spare capacity. The prefix is
  relocated first; the new element is constructed after that, from arguments that may
  refer to an element whose cell has just been moved from.
\<close>

definition CompletelyFilled ::
  "'a elem_type \<Rightarrow> nat \<Rightarrow> 'a ctor_args \<Rightarrow> 'a Vector \<Rightarrow> ('a Vector, 'a failure) res"
where
  "CompletelyFilled T offset args v =
     (case Allocate T (if Size v = 0 then 1 else size_t_mul (Size v) 2) of
        None \<Rightarrow> Raise (bad_alloc, v, [])
      | Some new_data \<Rightarrow>
          (case
             (if nothrow_move_constructible T \<or> \<not> copy_constructible T then
                (case uninitialized_move_n T (m_data v) 0 offset new_data 0 of
                   Val (d, nd) \<Rightarrow> Val (d, nd)
                 | Raise d \<Rightarrow> Raise (elem_exn, v\<lparr>m_data := d\<rparr>, new_data)
                 | Undef \<Rightarrow> Undef)
              else
                (case uninitialized_copy_n T (m_data v) 0 offset new_data 0 of
                   Val nd \<Rightarrow> Val (m_data v, nd)
                 | Raise _ \<Rightarrow>
                     (case destroy_n new_data offset 1 of
                        None \<Rightarrow> Undef
                      | Some nd \<Rightarrow> Raise (elem_exn, v, nd))
                 | Undef \<Rightarrow> Undef))
           of
             Raise r \<Rightarrow> Raise r
           | Undef \<Rightarrow> Undef
           | Val (d1, nd1) \<Rightarrow>
               (case construct_at T nd1 offset args d1 of
                  Raise _ \<Rightarrow> Raise (elem_exn, v\<lparr>m_data := d1\<rparr>, nd1)
                | Undef \<Rightarrow> Undef
                | Val (nd2, d2) \<Rightarrow>
                    (case
                       (if m_size v > offset then
                          (if nothrow_move_constructible T \<or> \<not> copy_constructible T then
                             (case uninitialized_move_n T d2 offset (m_size v - offset)
                                     nd2 (offset + 1) of
                                Val (d, nd) \<Rightarrow> Val (d, nd)
                              | Raise d \<Rightarrow> Raise (elem_exn, v\<lparr>m_data := d\<rparr>, nd2)
                              | Undef \<Rightarrow> Undef)
                           else
                             (case uninitialized_copy_n T d2 offset (m_size v - offset)
                                     nd2 (offset + 1) of
                                Val nd \<Rightarrow> Val (d2, nd)
                              | Raise _ \<Rightarrow>
                                  (case destroy_n nd2 0 (offset + 1) of
                                     None \<Rightarrow> Undef
                                   | Some nd \<Rightarrow> Raise (elem_exn, v\<lparr>m_data := d2\<rparr>, nd))
                              | Undef \<Rightarrow> Undef))
                        else Val (d2, nd2))
                     of
                       Raise r \<Rightarrow> Raise r
                     | Undef \<Rightarrow> Undef
                     | Val (d3, nd3) \<Rightarrow>
                         (case destroy_n d3 0 (Size v) of
                            None \<Rightarrow> Undef
                          | Some _ \<Rightarrow>
                              Val \<lparr>m_data = nd3,
                                   m_capacity = (if Size v = 0 then 1 else size_t_mul (Size v) 2),
                                   m_size = m_size v + 1\<rparr>)))))"

text \<open>
  \<^verbatim>\<open>Emplace(pos, args...)\<close>. A position is valid in \<^verbatim>\<open>[begin(), end()]\<close>; any other
  pointer is outside the contract. The result is \<^verbatim>\<open>begin() + offset\<close>, taken after
  the insertion.
\<close>

definition Emplace ::
  "'a elem_type \<Rightarrow> nat \<Rightarrow> 'a ctor_args \<Rightarrow> 'a Vector \<Rightarrow> ('a Vector \<times> nat, 'a failure) res"
where
  "Emplace T pos args v =
     (if pos > m_size v then Undef
      else
        (case (if Capacity v > Size v then BigCapacity T pos args v
               else CompletelyFilled T pos args v) of
           Val v' \<Rightarrow> Val (v', 0 + pos)
         | Raise r \<Rightarrow> Raise r
         | Undef \<Rightarrow> Undef))"

text \<open>
  \<^verbatim>\<open>Insert(pos, const T&)\<close> and \<^verbatim>\<open>Insert(pos, T&&)\<close>: both forward the reference they
  received to \<^verbatim>\<open>Emplace\<close>.
\<close>

definition Insert ::
  "'a elem_type \<Rightarrow> nat \<Rightarrow> 'a value_ref \<Rightarrow> 'a Vector \<Rightarrow> ('a Vector \<times> nat, 'a failure) res"
where
  "Insert T pos val v = Emplace T pos (Forward val) v"

definition Erase :: "'a elem_type \<Rightarrow> nat \<Rightarrow> 'a Vector \<Rightarrow> ('a Vector \<times> nat, 'a failure) res" where
  "Erase T pos v =
     (if pos > m_size v then Undef
      else if pos = m_size v then Val (v, m_size v)
      else
        (case std_move T (m_data v) (pos + 1) (m_size v - (pos + 1)) pos of
           Raise d \<Rightarrow> Raise (elem_exn, v\<lparr>m_data := d\<rparr>, [])
         | Undef \<Rightarrow> Undef
         | Val d \<Rightarrow>
             (case destroy_n d (m_size v - 1) 1 of
                None \<Rightarrow> Undef
              | Some d' \<Rightarrow> Val (v\<lparr>m_data := d', m_size := m_size v - 1\<rparr>, pos))))"

text \<open>
  \<^verbatim>\<open>operator=(const Vector& rhs)\<close>. In the first branch the temporary copy is swapped
  in and destroyed with the old elements. In the second branch the two \<^verbatim>\<open>if\<close>
  statements run one after the other on the same \<^verbatim>\<open>size_\<close>, which is assigned last.
\<close>

definition CopyAssign :: "'a elem_type \<Rightarrow> 'a Vector \<Rightarrow> 'a Vector \<Rightarrow> ('a Vector, 'a failure) res" where
  "CopyAssign T rhs v =
     (if m_size rhs > Capacity v then
        (case Vector_copy T rhs of
           Raise (e, blk) \<Rightarrow> Raise (e, v, blk)
         | Undef \<Rightarrow> Undef
         | Val tmp \<Rightarrow>
             (case Swap v tmp of
                (v', tmp') \<Rightarrow>
                  (case Vector_dtor tmp' of None \<Rightarrow> Undef | Some _ \<Rightarrow> Val v')))
      else
        (case
           (if m_size v < m_size rhs then
              (case uninitialized_copy_n T (m_data rhs) (m_size v) (m_size rhs - m_size v)
                      (m_data v) (m_size v) of
                 Raise _ \<Rightarrow> Raise (elem_exn, v, [])
               | Undef \<Rightarrow> Undef
               | Val d \<Rightarrow>
                   (case std_copy T (m_data rhs) 0 (m_size v) d 0 of
                      Raise d' \<Rightarrow> Raise (elem_exn, v\<lparr>m_data := d'\<rparr>, [])
                    | Undef \<Rightarrow> Undef
                    | Val d' \<Rightarrow> Val d'))
            else Val (m_data v))
         of
           Raise r \<Rightarrow> Raise r
         | Undef \<Rightarrow> Undef
         | Val d1 \<Rightarrow>
             (case
                (if m_size v > m_size rhs then
                   (case destroy_n d1 (m_size rhs) (m_size v - m_size rhs) of
                      None \<Rightarrow> Undef
                    | Some d \<Rightarrow>
                        (case std_copy T (m_data rhs) 0 (m_size rhs) d 0 of
                           Raise d' \<Rightarrow> Raise (elem_exn, v\<lparr>m_data := d'\<rparr>, [])
                         | Undef \<Rightarrow> Undef
                         | Val d' \<Rightarrow> Val d'))
                 else Val d1)
              of
                Raise r \<Rightarrow> Raise r
              | Undef \<Rightarrow> Undef
              | Val d2 \<Rightarrow> Val (v\<lparr>m_data := d2, m_size := m_size rhs\<rparr>))))"

subsection \<open>Calls as data\<close>

text \<open>
  The public mutating operations as one type, and the state of the vector a call
  leaves. An operation that takes a second vector carries it.
\<close>

datatype 'a operation =
    OpReserve nat
  | OpResize nat
  | OpPushBack "'a ctor_args"
  | OpPopBack
  | OpEmplaceBack "'a ctor_args"
  | OpEmplace nat "'a ctor_args"
  | OpInsert nat "'a value_ref"
  | OpErase nat
  | OpCopyAssign "'a Vector"
  | OpMoveAssign "'a Vector"
  | OpSwap "'a Vector"

definition state_of :: "('a Vector \<times> 'r, 'a failure) res \<Rightarrow> ('a Vector, 'a failure) res" where
  "state_of r = (case r of Val (v, _) \<Rightarrow> Val v | Raise f \<Rightarrow> Raise f | Undef \<Rightarrow> Undef)"

fun exec :: "'a elem_type \<Rightarrow> 'a operation \<Rightarrow> 'a Vector \<Rightarrow> ('a Vector, 'a failure) res" where
  "exec T (OpReserve n) v = Reserve T n v"
| "exec T (OpResize n) v = Resize T n v"
| "exec T (OpPushBack val) v = PushBack T val v"
| "exec T OpPopBack v = PopBack v"
| "exec T (OpEmplaceBack args) v = state_of (EmplaceBack T args v)"
| "exec T (OpEmplace pos args) v = state_of (Emplace T pos args v)"
| "exec T (OpInsert pos val) v = state_of (Insert T pos val v)"
| "exec T (OpErase pos) v = state_of (Erase T pos v)"
| "exec T (OpCopyAssign rhs) v = CopyAssign T rhs v"
| "exec T (OpMoveAssign rhs) v = Val (fst (MoveAssign rhs v))"
| "exec T (OpSwap other) v = Val (fst (Swap v other))"

text \<open>
  The capacity of the states an outcome leaves, against the capacity \<open>c\<close> before the
  call: not below \<open>c\<close>, or equal to \<open>c\<close>.
\<close>

definition keeps_capacity :: "nat \<Rightarrow> ('a Vector, 'a failure) res \<Rightarrow> bool" where
  "keeps_capacity c r =
     (case r of
        Val v' \<Rightarrow> c \<le> m_capacity v'
      | Raise (e, v', blk) \<Rightarrow> c \<le> m_capacity v'
      | Undef \<Rightarrow> True)"

definition same_capacity :: "nat \<Rightarrow> ('a Vector, 'a failure) res \<Rightarrow> bool" where
  "same_capacity c r =
     (case r of
        Val v' \<Rightarrow> m_capacity v' = c
      | Raise (e, v', blk) \<Rightarrow> m_capacity v' = c
      | Undef \<Rightarrow> True)"

text \<open>The operations that exchange the state of two vectors.\<close>

fun exchanges :: "'a operation \<Rightarrow> bool" where
  "exchanges (OpMoveAssign rhs) = True"
| "exchanges (OpSwap other) = True"
| "exchanges _ = False"

text \<open>
  A sequence of appends: each is a call of \<^verbatim>\<open>PushBack\<close> or of \<^verbatim>\<open>EmplaceBack\<close> with its
  arguments. The sequence stops at the first call that does not return.
\<close>

datatype 'a append_call = ByPushBack "'a ctor_args" | ByEmplaceBack "'a ctor_args"

fun append_args :: "'a append_call \<Rightarrow> 'a ctor_args" where
  "append_args (ByPushBack a) = a"
| "append_args (ByEmplaceBack a) = a"

fun do_append :: "'a elem_type \<Rightarrow> 'a append_call \<Rightarrow> 'a Vector \<Rightarrow> ('a Vector, 'a failure) res" where
  "do_append T (ByPushBack a) v = PushBack T a v"
| "do_append T (ByEmplaceBack a) v = state_of (EmplaceBack T a v)"

fun appends :: "'a elem_type \<Rightarrow> 'a append_call list \<Rightarrow> 'a Vector \<Rightarrow> ('a Vector, 'a failure) res" where
  "appends T [] v = Val v"
| "appends T (a # as) v =
     (case do_append T a v of
        Val v' \<Rightarrow> appends T as v'
      | Raise r \<Rightarrow> Raise r
      | Undef \<Rightarrow> Undef)"

subsection \<open>What arguments denote\<close>

text \<open>
  The meaning of the arguments of a call in terms of the values \<open>es\<close> of the elements
  the vector holds when the call is made: the value a reference refers to (\<open>None\<close> for a
  reference to an element the vector does not have), the value \<^verbatim>\<open>T(args...)\<close> builds,
  the value \<^verbatim>\<open>T{args...}\<close> builds, and the elements after the construction, which
  differ from \<open>es\<close> where the caller asked for an element to be moved from.
\<close>

fun ref_value :: "'a value_ref \<Rightarrow> 'a list \<Rightarrow> 'a option" where
  "ref_value (Lvalue x) es = Some x"
| "ref_value (Rvalue x) es = Some x"
| "ref_value (Element i) es = (if i < length es then Some (es ! i) else None)"
| "ref_value (MovedElement i) es = (if i < length es then Some (es ! i) else None)"

fun arg_value :: "'a ctor_args \<Rightarrow> 'a list \<Rightarrow> 'a option" where
  "arg_value (Forward r) es = ref_value r es"
| "arg_value (Args p b) es = p"

fun braced_value :: "'a elem_type \<Rightarrow> 'a ctor_args \<Rightarrow> 'a list \<Rightarrow> 'a option" where
  "braced_value T (Forward r) es = map_option (braced T) (ref_value r es)"
| "braced_value T (Args p b) es = b"

fun after_args :: "'a elem_type \<Rightarrow> 'a ctor_args \<Rightarrow> 'a list \<Rightarrow> 'a list" where
  "after_args T (Forward (MovedElement i)) es = es[i := moved_from T (es ! i)]"
| "after_args T (Forward r) es = es"
| "after_args T (Args p b) es = es"

text \<open>
  Arguments that refer to an element of the vector itself, and those among them that
  ask for the element to be moved from.
\<close>

fun refers_to_element :: "'a ctor_args \<Rightarrow> bool" where
  "refers_to_element (Forward (Element i)) = True"
| "refers_to_element (Forward (MovedElement i)) = True"
| "refers_to_element _ = False"

fun moves_element :: "'a ctor_args \<Rightarrow> bool" where
  "moves_element (Forward (MovedElement i)) = True"
| "moves_element _ = False"

text \<open>Whether the construction of a \<^verbatim>\<open>T\<close> from the value \<open>x\<close> passed by this reference throws.\<close>

fun ref_throws :: "'a elem_type \<Rightarrow> 'a value_ref \<Rightarrow> 'a \<Rightarrow> bool" where
  "ref_throws T (Lvalue y) x = (copy_construct T x = None)"
| "ref_throws T (Rvalue y) x = (move_construct T x = None)"
| "ref_throws T (Element i) x = (copy_construct T x = None)"
| "ref_throws T (MovedElement i) x = (move_construct T x = None)"

fun arg_throws :: "'a elem_type \<Rightarrow> 'a ctor_args \<Rightarrow> 'a \<Rightarrow> bool" where
  "arg_throws T (Forward r) x = ref_throws T r x"
| "arg_throws T (Args p b) x = False"

text \<open>
  The contents of a vector after a sequence of appends to the contents \<open>es\<close>: each
  append adds the value its arguments denote at that moment.
\<close>

fun appended :: "'a elem_type \<Rightarrow> 'a ctor_args list \<Rightarrow> 'a list \<Rightarrow> 'a list" where
  "appended T [] es = es"
| "appended T (a # as) es =
     (case arg_value a es of
        None \<Rightarrow> es
      | Some x \<Rightarrow> appended T as (after_args T a es @ [x]))"

subsection \<open>Relocation in terms of values\<close>

text \<open>
  The relocation of the objects \<open>xs\<close> into a new block, by move or by copy as the code
  selects: whether it goes through without an exception, and the values it leaves in
  the old cells. Moving stops at the first object whose move constructor throws; the
  objects before it are moved-from.
\<close>

fun partially_moved :: "'a elem_type \<Rightarrow> 'a list \<Rightarrow> 'a list" where
  "partially_moved T [] = []"
| "partially_moved T (x # xs) =
     (if move_construct T x = None then x # xs else moved_from T x # partially_moved T xs)"

definition relocates :: "'a elem_type \<Rightarrow> 'a list \<Rightarrow> bool" where
  "relocates T xs =
     list_all (\<lambda>x. if nothrow_move_constructible T \<or> \<not> copy_constructible T
                   then move_construct T x \<noteq> None else \<not> copy_throws T x) xs"

definition left_behind :: "'a elem_type \<Rightarrow> 'a list \<Rightarrow> 'a list" where
  "left_behind T xs =
     (if nothrow_move_constructible T \<or> \<not> copy_constructible T then partially_moved T xs
      else xs)"

text \<open>The values a relocation that went through leaves in the old cells.\<close>

definition moved_out :: "'a elem_type \<Rightarrow> 'a list \<Rightarrow> 'a list" where
  "moved_out T xs =
     (if nothrow_move_constructible T \<or> \<not> copy_constructible T then map (moved_from T) xs
      else xs)"

text \<open>The block of a vector that holds the elements \<open>es\<close> and has \<open>k\<close> spare cells.\<close>

definition cells :: "'a list \<Rightarrow> nat \<Rightarrow> 'a slot list" where
  "cells es k = map Obj es @ replicate k Raw"

subsection \<open>Element types used in the examples\<close>

text \<open>
  \<^verbatim>\<open>int\<close>: four bytes, nothing throws, moving leaves the value. \<open>throwing_copy\<close> is a class
  over \<^verbatim>\<open>int\<close> whose move constructor is not \<^verbatim>\<open>noexcept\<close> and whose copy constructor throws
  on the value 1, so that the code relocates by copying. \<open>resource\<close> is a class with a
  \<^verbatim>\<open>noexcept\<close> move constructor that leaves 0 behind, and the same throwing copy.
  \<open>throwing_assign\<close> is a class with a \<^verbatim>\<open>noexcept\<close> move constructor whose assignment
  operators throw when they are to assign the value 4.
\<close>

definition int_type :: "int elem_type" where
  "int_type = \<lparr>sizeof = 4, nothrow_move_constructible = True, copy_constructible = True,
     copy_throws = (\<lambda>x. False), move_throws = (\<lambda>x. False), moved_from = (\<lambda>x. x),
     copy_assign_throws = (\<lambda>x. False), move_assign_throws = (\<lambda>x. False), braced = (\<lambda>x. x),
     value_init = Some 0, alloc_fails = (\<lambda>b. False)\<rparr>"

definition throwing_copy :: "int elem_type" where
  "throwing_copy = \<lparr>sizeof = 4, nothrow_move_constructible = False, copy_constructible = True,
     copy_throws = (\<lambda>x. x = 1), move_throws = (\<lambda>x. False), moved_from = (\<lambda>x. x),
     copy_assign_throws = (\<lambda>x. False), move_assign_throws = (\<lambda>x. False), braced = (\<lambda>x. x),
     value_init = Some 0, alloc_fails = (\<lambda>b. False)\<rparr>"

definition resource :: "int elem_type" where
  "resource = \<lparr>sizeof = 4, nothrow_move_constructible = True, copy_constructible = True,
     copy_throws = (\<lambda>x. x = 1), move_throws = (\<lambda>x. False), moved_from = (\<lambda>x. 0),
     copy_assign_throws = (\<lambda>x. False), move_assign_throws = (\<lambda>x. False), braced = (\<lambda>x. x),
     value_init = Some 0, alloc_fails = (\<lambda>b. False)\<rparr>"

definition throwing_assign :: "int elem_type" where
  "throwing_assign = \<lparr>sizeof = 4, nothrow_move_constructible = True, copy_constructible = True,
     copy_throws = (\<lambda>x. False), move_throws = (\<lambda>x. False), moved_from = (\<lambda>x. x),
     copy_assign_throws = (\<lambda>x. x = 4), move_assign_throws = (\<lambda>x. x = 4), braced = (\<lambda>x. x),
     value_init = Some 0, alloc_fails = (\<lambda>b. False)\<rparr>"

section \<open>Allocation\<close>

lemma size_t_mul_small: "a * b \<le> SIZE_MAX \<Longrightarrow> size_t_mul a b = a * b"
  by (simp add: size_t_mul_def)

lemma PTRDIFF_MAX_twice: "2 * PTRDIFF_MAX \<le> SIZE_MAX"
  by (simp add: PTRDIFF_MAX_def SIZE_MAX_def)

lemma PTRDIFF_MAX_le: "PTRDIFF_MAX \<le> SIZE_MAX"
  by (simp add: PTRDIFF_MAX_def SIZE_MAX_def)

text \<open>The storage is never larger than what was asked for.\<close>

lemma Allocate_SomeD:
  "Allocate T n = Some b \<Longrightarrow> \<exists>k\<le>n. b = replicate k Raw"
proof (cases "n = 0")
  case True
  assume "Allocate T n = Some b"
  with True show ?thesis by (simp add: Allocate_def)
next
  case False
  assume a: "Allocate T n = Some b"
  have "size_t_mul n (sizeof T) \<le> n * sizeof T"
    by (simp add: size_t_mul_def)
  then have "size_t_mul n (sizeof T) div sizeof T \<le> n * sizeof T div sizeof T"
    by (rule div_le_mono)
  then have "size_t_mul n (sizeof T) div sizeof T \<le> n"
    by (cases "sizeof T = 0") simp_all
  with a False show ?thesis by (auto simp: Allocate_def split: if_splits)
qed

lemma Allocate_length: "Allocate T n = Some b \<Longrightarrow> length b \<le> n"
  by (drule Allocate_SomeD) auto

text \<open>Without a wrap the storage has the cells asked for.\<close>

lemma Allocate_exact:
  assumes "0 < sizeof T" and "n * sizeof T \<le> SIZE_MAX"
  shows "Allocate T n =
     (if n \<noteq> 0 \<and> (PTRDIFF_MAX < n * sizeof T \<or> alloc_fails T (n * sizeof T)) then None
      else Some (replicate n Raw))"
  using assms by (simp add: Allocate_def size_t_mul_small)

section \<open>The block of a vector that satisfies the invariant\<close>

lemma objs_map_Obj [simp]: "objs (map Obj es) = es"
  by (induction es) simp_all

lemma objs_append [simp]: "objs (xs @ ys) = objs xs @ objs ys"
proof (induction xs)
  case Nil
  show ?case by simp
next
  case (Cons c xs)
  then show ?case by (cases c) simp_all
qed

lemma objs_replicate_Raw [simp]: "objs (replicate k Raw) = []"
  by (induction k) simp_all

lemma objs_cells [simp]: "objs (cells es k) = es"
  by (simp add: cells_def)

lemma length_cells [simp]: "length (cells es k) = length es + k"
  by (simp add: cells_def)

lemma take_cells [simp]: "take (length es) (cells es k) = map Obj es"
  by (simp add: cells_def)

lemma nth_cells_Obj: "i < length es \<Longrightarrow> cells es k ! i = Obj (es ! i)"
  by (simp add: cells_def nth_append)

lemma nth_cells_Raw: "length es \<le> i \<Longrightarrow> i < length es + k \<Longrightarrow> cells es k ! i = Raw"
  by (simp add: cells_def nth_append)

lemma all_Obj: "list_all (\<lambda>c. c \<noteq> Raw) xs \<Longrightarrow> map Obj (objs xs) = xs"
proof (induction xs)
  case Nil
  show ?case by simp
next
  case (Cons c xs)
  then show ?case by (cases c) simp_all
qed

lemma all_Raw: "list_all (\<lambda>c. c = Raw) xs \<Longrightarrow> xs = replicate (length xs) Raw"
  by (induction xs) simp_all

text \<open>
  A vector satisfies the invariant exactly when its block is the list of its elements
  followed by raw cells up to its capacity.
\<close>

lemma inv_cells:
  assumes "vector_inv v"
  shows "m_data v = cells (elements v) (m_capacity v - m_size v)"
    and "length (elements v) = m_size v"
    and "m_size v \<le> m_capacity v"
    and "length (m_data v) = m_capacity v"
proof -
  from assms have le: "m_size v \<le> m_capacity v" and len: "m_capacity v = length (m_data v)"
    and live: "list_all (\<lambda>c. c \<noteq> Raw) (take (m_size v) (m_data v))"
    and raw: "list_all (\<lambda>c. c = Raw) (drop (m_size v) (m_data v))"
    by (simp_all add: vector_inv_def)
  from all_Obj [OF live] have t: "take (m_size v) (m_data v) = map Obj (elements v)"
    by (simp add: elements_def)
  from all_Raw [OF raw] have d: "drop (m_size v) (m_data v) = replicate (m_capacity v - m_size v) Raw"
    using len by simp
  have "m_data v = take (m_size v) (m_data v) @ drop (m_size v) (m_data v)" by simp
  with t d show "m_data v = cells (elements v) (m_capacity v - m_size v)"
    by (simp add: cells_def)
  from t have "length (take (m_size v) (m_data v)) = length (elements v)" by simp
  with le len show "length (elements v) = m_size v" by simp
  show "m_size v \<le> m_capacity v" by (rule le)
  show "length (m_data v) = m_capacity v" using len by simp
qed

lemma cells_inv:
  "vector_inv \<lparr>m_data = cells es k, m_capacity = length es + k, m_size = length es\<rparr>"
  by (simp add: vector_inv_def cells_def list_all_iff)

lemma elements_cells [simp]:
  "elements \<lparr>m_data = cells es k, m_capacity = c, m_size = length es\<rparr> = es"
  by (simp add: elements_def)

lemma vector_eqI:
  "m_data v = d \<Longrightarrow> m_capacity v = c \<Longrightarrow> m_size v = s \<Longrightarrow>
     (v :: 'a Vector) = \<lparr>m_data = d, m_capacity = c, m_size = s\<rparr>"
  by (cases v) simp

lemma at_cells:
  "i < length es \<Longrightarrow> at \<lparr>m_data = cells es k, m_capacity = c, m_size = length es\<rparr> i = Some (es ! i)"
  by (simp add: at_def nth_cells_Obj)

lemma at_elements:
  assumes "vector_inv v" and "i < m_size v"
  shows "at v i = Some (elements v ! i)"
proof -
  note c = inv_cells [OF assms(1)]
  from assms(2) c(2) have "i < length (elements v)" by simp
  then have "m_data v ! i = Obj (elements v ! i)"
    using c(1) nth_cells_Obj [of i "elements v" "m_capacity v - m_size v"] by simp
  with assms(2) c show ?thesis by (simp add: at_def)
qed

section \<open>The library algorithms on blocks of objects and raw cells\<close>

text \<open>
  Each algorithm is computed on a range of objects \<open>map Obj xs\<close> inside a source block
  and, where it constructs, a range of raw cells inside the destination block.
\<close>

lemma destroy_n_objs:
  "destroy_n (p @ map Obj xs @ r) (length p) (length xs) = Some (p @ replicate (length xs) Raw @ r)"
proof (induction xs arbitrary: p)
  case Nil
  show ?case by simp
next
  case (Cons x xs)
  have upd: "(p @ map Obj (x # xs) @ r)[length p := Raw] = (p @ [Raw]) @ map Obj xs @ r"
    by simp
  from Cons.IH [of "p @ [Raw]"]
  have "destroy_n ((p @ [Raw]) @ map Obj xs @ r) (Suc (length p)) (length xs)
          = Some ((p @ [Raw]) @ replicate (length xs) Raw @ r)" by simp
  then show ?case
    by (simp add: upd [simplified] replicate_app_Cons_same)
qed

lemma uninitialized_copy_n_cells:
  assumes "length xs \<le> m"
  shows "uninitialized_copy_n T (sp @ map Obj xs @ sr) (length sp) (length xs)
           (dp @ replicate m Raw @ dr) (length dp) =
     (if \<exists>x\<in>set xs. copy_throws T x then Raise ()
      else Val (dp @ map Obj xs @ replicate (m - length xs) Raw @ dr))"
  using assms
proof (induction xs arbitrary: sp dp m)
  case Nil
  show ?case by simp
next
  case (Cons x xs)
  then obtain m' where m: "m = Suc m'" and le: "length xs \<le> m'"
    by (cases m) auto
  have ih: "uninitialized_copy_n T ((sp @ [Obj x]) @ map Obj xs @ sr) (Suc (length sp)) (length xs)
           ((dp @ [Obj x]) @ replicate m' Raw @ dr) (Suc (length dp)) =
     (if \<exists>x\<in>set xs. copy_throws T x then Raise ()
      else Val ((dp @ [Obj x]) @ map Obj xs @ replicate (m' - length xs) Raw @ dr))"
    using Cons.IH [OF le, of "sp @ [Obj x]" "dp @ [Obj x]"] by simp
  show ?case
    using ih by (simp add: m copy_construct_def)
qed

lemma length_partially_moved [simp]: "length (partially_moved T xs) = length xs"
  by (induction xs) simp_all

lemma partially_moved_all:
  "\<forall>x\<in>set xs. move_construct T x \<noteq> None \<Longrightarrow> partially_moved T xs = map (moved_from T) xs"
  by (induction xs) auto

lemma uninitialized_move_n_cells:
  assumes "length xs \<le> m"
  shows "uninitialized_move_n T (sp @ map Obj xs @ sr) (length sp) (length xs)
           (dp @ replicate m Raw @ dr) (length dp) =
     (if \<forall>x\<in>set xs. move_construct T x \<noteq> None
      then Val (sp @ map Obj (partially_moved T xs) @ sr,
                dp @ map Obj xs @ replicate (m - length xs) Raw @ dr)
      else Raise (sp @ map Obj (partially_moved T xs) @ sr))"
  using assms
proof (induction xs arbitrary: sp dp m)
  case Nil
  show ?case by simp
next
  case (Cons x xs)
  then obtain m' where m: "m = Suc m'" and le: "length xs \<le> m'"
    by (cases m) auto
  have ih: "uninitialized_move_n T ((sp @ [Obj (moved_from T x)]) @ map Obj xs @ sr)
           (Suc (length sp)) (length xs) ((dp @ [Obj x]) @ replicate m' Raw @ dr) (Suc (length dp)) =
     (if \<forall>x\<in>set xs. move_construct T x \<noteq> None
      then Val ((sp @ [Obj (moved_from T x)]) @ map Obj (partially_moved T xs) @ sr,
                (dp @ [Obj x]) @ map Obj xs @ replicate (m' - length xs) Raw @ dr)
      else Raise ((sp @ [Obj (moved_from T x)]) @ map Obj (partially_moved T xs) @ sr))"
    using Cons.IH [OF le, of "sp @ [Obj (moved_from T x)]" "dp @ [Obj x]"] by simp
  show ?case
  proof (cases "move_construct T x")
    case None
    then show ?thesis by (simp add: m)
  next
    case (Some y)
    then have y: "y = x" by (simp add: move_construct_def split: if_splits)
    with ih Some show ?thesis by (simp add: m)
  qed
qed

lemma length_left_behind [simp]: "length (left_behind T xs) = length xs"
  by (simp add: left_behind_def)

text \<open>
  The block \<^verbatim>\<open>if constexpr (...) uninitialized_move_n(...) else uninitialized_copy_n(...)\<close>
  that the code repeats has four outcomes.
\<close>

lemma relocation_cases [case_names moved move_throws copied copy_throws]:
  assumes "src = sp @ map Obj xs @ sr" and "soff = length sp" and "n = length xs"
    and "dst = dp @ replicate m Raw @ dr" and "doff = length dp" and "n \<le> m"
  obtains
    (moved) "nothrow_move_constructible T \<or> \<not> copy_constructible T" and "relocates T xs"
      and "uninitialized_move_n T src soff n dst doff =
             Val (sp @ map Obj (left_behind T xs) @ sr,
                  dp @ map Obj xs @ replicate (m - n) Raw @ dr)"
  | (move_throws) "nothrow_move_constructible T \<or> \<not> copy_constructible T"
      and "\<not> relocates T xs"
      and "uninitialized_move_n T src soff n dst doff =
             Raise (sp @ map Obj (left_behind T xs) @ sr)"
  | (copied) "\<not> nothrow_move_constructible T" and "copy_constructible T"
      and "relocates T xs" and "left_behind T xs = xs"
      and "uninitialized_copy_n T src soff n dst doff =
             Val (dp @ map Obj xs @ replicate (m - n) Raw @ dr)"
  | (copy_throws) "\<not> nothrow_move_constructible T" and "copy_constructible T"
      and "\<not> relocates T xs" and "left_behind T xs = xs"
      and "uninitialized_copy_n T src soff n dst doff = Raise ()"
proof -
  from assms(3,6) have le: "length xs \<le> m" by simp
  show thesis
  proof (cases "nothrow_move_constructible T \<or> \<not> copy_constructible T")
    case True
    then have r: "relocates T xs = (\<forall>x\<in>set xs. move_construct T x \<noteq> None)"
      by (auto simp: relocates_def list_all_iff)
    from True have l: "left_behind T xs = partially_moved T xs"
      by (auto simp: left_behind_def)
    note mv = uninitialized_move_n_cells [OF le, of T sp sr dp dr, folded assms(1-5) r l]
    show thesis
    proof (cases "relocates T xs")
      case r: True
      with mv have "uninitialized_move_n T src soff n dst doff =
             Val (sp @ map Obj (left_behind T xs) @ sr,
                  dp @ map Obj xs @ replicate (m - n) Raw @ dr)" by simp
      with True r show thesis by (rule moved)
    next
      case r: False
      with mv have "uninitialized_move_n T src soff n dst doff =
             Raise (sp @ map Obj (left_behind T xs) @ sr)" by simp
      with True r show thesis by (rule move_throws)
    qed
  next
    case False
    then have nm: "\<not> nothrow_move_constructible T" "copy_constructible T" by simp_all
    from False have r: "relocates T xs = (\<not> (\<exists>x\<in>set xs. copy_throws T x))"
      by (auto simp: relocates_def list_all_iff)
    from False have l: "left_behind T xs = xs"
      by (auto simp: left_behind_def)
    note cp = uninitialized_copy_n_cells [OF le, of T sp sr dp dr, folded assms(1-5)]
    show thesis
    proof (cases "relocates T xs")
      case True
      with cp r have "uninitialized_copy_n T src soff n dst doff =
             Val (dp @ map Obj xs @ replicate (m - n) Raw @ dr)" by simp
      with nm True l show thesis by (rule copied)
    next
      case False
      with cp r have "uninitialized_copy_n T src soff n dst doff = Raise ()" by simp
      with nm False l show thesis by (rule copy_throws)
    qed
  qed
qed

lemma uninitialized_value_construct_n_cells:
  assumes "n \<le> m"
  shows "uninitialized_value_construct_n T (p @ replicate m Raw) (length p) n =
     (case value_init T of
        None \<Rightarrow> (if n = 0 then Val (p @ replicate m Raw) else Raise ())
      | Some y \<Rightarrow> Val (p @ replicate n (Obj y) @ replicate (m - n) Raw))"
  using assms
proof (induction n arbitrary: p m)
  case 0
  show ?case by (simp split: option.splits)
next
  case (Suc n)
  then obtain m' where m: "m = Suc m'" and le: "n \<le> m'"
    by (cases m) auto
  show ?case
  proof (cases "value_init T")
    case None
    then show ?thesis by (simp add: m)
  next
    case (Some y)
    from Suc.IH [OF le, of "p @ [Obj y]"] Some
    have "uninitialized_value_construct_n T ((p @ [Obj y]) @ replicate m' Raw) (Suc (length p)) n
            = Val ((p @ [Obj y]) @ replicate n (Obj y) @ replicate (m' - n) Raw)"
      by simp
    with Some show ?thesis by (simp add: m replicate_app_Cons_same)
  qed
qed

text \<open>Assignments between two neighbouring cells, and of a value.\<close>

lemma move_assign_right:
  "move_assign T (xs @ Obj y # Obj w # r) (length xs) (Suc (length xs)) =
     (if move_assign_throws T y then Raise ()
      else Val (xs @ Obj (moved_from T y) # Obj y # r))"
  by (simp add: move_assign_def nth_append list_update_append)

lemma move_assign_left:
  "move_assign T (xs @ Obj w # Obj y # r) (Suc (length xs)) (length xs) =
     (if move_assign_throws T y then Raise ()
      else Val (xs @ Obj y # Obj (moved_from T y) # r))"
  by (simp add: move_assign_def nth_append list_update_append)

lemma assign_value_cells:
  "assign_value T (xs @ Obj z # r) (length xs) x =
     (if move_assign_throws T x then Raise () else Val (xs @ Obj x # r))"
  by (simp add: assign_value_def)

lemma copy_assign_cells:
  "copy_assign T (sp @ Obj x # sr) (length sp) (dp @ Obj z # dr) (length dp) =
     (if copy_assign_throws T x then Raise () else Val (dp @ Obj x # dr))"
  by (simp add: copy_assign_def)

text \<open>
  \<^verbatim>\<open>std::move_backward\<close> over the objects \<open>ys\<close>, one cell to the right, onto the object
  \<open>w\<close>: the first cell of the range is left moved-from.
\<close>

lemma std_move_backward_cells:
  "\<exists>zs. length zs = Suc (length ys) \<and>
     std_move_backward T (p @ map Obj ys @ Obj w # r) (length ys) (length p + length ys)
         (Suc (length p + length ys)) =
       (if \<forall>y\<in>set ys. \<not> move_assign_throws T y
        then Val (p @ Obj (hd (map (moved_from T) ys @ [w])) # map Obj ys @ r)
        else Raise (p @ map Obj zs @ r))"
proof (induction ys arbitrary: w r rule: rev_induct)
  case Nil
  show ?case by (intro exI [of _ "[w]"]) simp
next
  case (snoc y ys)
  let ?xs = "p @ map Obj ys"
  have buf: "p @ map Obj (ys @ [y]) @ Obj w # r = ?xs @ Obj y # Obj w # r" by simp
  have idx: "length p + length (ys @ [y]) - 1 = length ?xs"
    "Suc (length p + length (ys @ [y])) - 1 = Suc (length ?xs)"
    by simp_all
  have step: "std_move_backward T (p @ map Obj (ys @ [y]) @ Obj w # r) (length (ys @ [y]))
         (length p + length (ys @ [y])) (Suc (length p + length (ys @ [y]))) =
       (if move_assign_throws T y then Raise (?xs @ Obj y # Obj w # r)
        else std_move_backward T (?xs @ Obj (moved_from T y) # Obj y # r) (length ys)
               (length p + length ys) (Suc (length p + length ys)))"
    unfolding buf using move_assign_right [of T ?xs y w r]
    by (simp del: append_assoc)
  from snoc.IH [of "moved_from T y" "Obj y # r"] obtain zs where zs: "length zs = Suc (length ys)"
    and ih: "std_move_backward T (p @ map Obj ys @ Obj (moved_from T y) # Obj y # r) (length ys)
         (length p + length ys) (Suc (length p + length ys)) =
       (if \<forall>y\<in>set ys. \<not> move_assign_throws T y
        then Val (p @ Obj (hd (map (moved_from T) ys @ [moved_from T y])) # map Obj ys @ Obj y # r)
        else Raise (p @ map Obj zs @ Obj y # r))"
    by blast
  have hd: "hd (map (moved_from T) (ys @ [y]) @ [w]) = hd (map (moved_from T) ys @ [moved_from T y])"
    by (cases ys) simp_all
  show ?case
  proof (cases "move_assign_throws T y")
    case True
    with step show ?thesis by (intro exI [of _ "ys @ [y, w]"]) simp
  next
    case False
    show ?thesis
    proof (cases "\<forall>y\<in>set ys. \<not> move_assign_throws T y")
      case True
      with step ih False hd show ?thesis by (intro exI [of _ "ys @ [y, w]"]) simp
    next
      case all: False
      with step ih False zs show ?thesis by (intro exI [of _ "zs @ [y]"]) auto
    qed
  qed
qed

text \<open>Constructions from arguments, on the block of a vector with elements \<open>es\<close>.\<close>

lemma cells_update: "i < length es \<Longrightarrow> (cells es k)[i := Obj x] = cells (es[i := x]) k"
  by (simp add: cells_def list_update_append map_update)

lemma cells_snoc: "0 < k \<Longrightarrow> (cells es k)[length es := Obj x] = cells (es @ [x]) (k - 1)"
  by (cases k) (simp_all add: cells_def list_update_append)

lemma construct_from_cells:
  "construct_from T r (cells es k) =
     (case ref_value r es of
        None \<Rightarrow> Undef
      | Some x \<Rightarrow>
          if ref_throws T r x then Raise ()
          else Val (x, cells (after_args T (Forward r) es) k))"
proof (cases r)
  case (Lvalue y)
  then show ?thesis by (simp add: construct_from_def copy_construct_def)
next
  case (Rvalue y)
  then show ?thesis by (simp add: construct_from_def move_construct_def)
next
  case (Element i)
  show ?thesis
  proof (cases "i < length es")
    case True
    with Element show ?thesis
      by (simp add: construct_from_def nth_cells_Obj copy_construct_def)
  next
    case False
    with Element show ?thesis
      by (cases "i < length es + k") (simp_all add: construct_from_def nth_cells_Raw)
  qed
next
  case (MovedElement i)
  show ?thesis
  proof (cases "i < length es")
    case True
    with MovedElement show ?thesis
      by (simp add: construct_from_def nth_cells_Obj move_construct_def cells_update)
  next
    case False
    with MovedElement show ?thesis
      by (cases "i < length es + k") (simp_all add: construct_from_def nth_cells_Raw)
  qed
qed

lemma direct_init_cells:
  "direct_init T args (cells es k) =
     (case arg_value args es of
        None \<Rightarrow> (if refers_to_element args then Undef else Raise ())
      | Some x \<Rightarrow>
          if arg_throws T args x then Raise ()
          else Val (x, cells (after_args T args es) k))"
proof (cases args)
  case (Forward r)
  then show ?thesis
    by (cases r) (simp_all add: direct_init_def construct_from_cells)
next
  case (Args p b)
  then show ?thesis by (cases p) (simp_all add: direct_init_def)
qed

lemma list_init_cells:
  "list_init T args (cells es k) =
     (case braced_value T args es of
        None \<Rightarrow> (if refers_to_element args then Undef else Raise ())
      | Some x \<Rightarrow>
          if (\<exists>y. arg_value args es = Some y \<and> arg_throws T args y) then Raise ()
          else Val (x, cells (after_args T args es) k))"
proof (cases args)
  case (Forward r)
  then show ?thesis
    by (cases r) (simp_all add: list_init_def construct_from_cells)
next
  case (Args p b)
  then show ?thesis by (cases b) (simp_all add: list_init_def)
qed

lemma length_after_args [simp]: "length (after_args T args es) = length es"
  by (cases "(T, args, es)" rule: after_args.cases) simp_all

section \<open>The member functions on a vector that satisfies the invariant\<close>

text \<open>
  For a vector that satisfies the invariant every member function is computed in terms
  of the list of the elements: the outcome is given with the three ways a call can end.
\<close>

lemma inv_data:
  assumes "vector_inv v"
  shows "m_data v = [] @ map Obj (elements v) @ replicate (m_capacity v - m_size v) Raw"
    and "m_size v = length (elements v)"
  using inv_cells [OF assms] by (simp_all add: cells_def)

lemma Vector_update_same [simp]: "v\<lparr>m_data := m_data v\<rparr> = (v :: 'a Vector)"
  by (cases v) simp

lemma Vector_updates:
  "(v :: 'a Vector)\<lparr>m_data := d, m_size := s\<rparr> = \<lparr>m_data = d, m_capacity = m_capacity v, m_size = s\<rparr>"
  by (cases v) simp

lemma Allocate_Some_exact:
  assumes "Allocate T n \<noteq> None" and "0 < sizeof T" and "n * sizeof T \<le> SIZE_MAX"
  shows "Allocate T n = Some (replicate n Raw)" and "n * sizeof T \<le> PTRDIFF_MAX"
  using assms(1) unfolding Allocate_exact [OF assms(2,3)]
  by (auto split: if_splits)

subsection \<open>Reserve\<close>

lemma Reserve_grows:
  assumes inv: "vector_inv v" and n: "Capacity v < n"
    and sz: "0 < sizeof T" and nw: "n * sizeof T \<le> SIZE_MAX"
  shows "Reserve T n v =
     (if Allocate T n = None then Raise (bad_alloc, v, [])
      else if relocates T (elements v)
        then Val \<lparr>m_data = cells (elements v) (n - m_size v), m_capacity = n, m_size = m_size v\<rparr>
      else Raise (elem_exn,
                  v\<lparr>m_data := cells (left_behind T (elements v)) (m_capacity v - m_size v)\<rparr>,
                  replicate n Raw))"
proof (cases "Allocate T n")
  case None
  with n show ?thesis by (simp add: Reserve_def)
next
  case (Some new_data)
  then have al: "Allocate T n = Some (replicate n Raw)"
    using Allocate_Some_exact(1) [OF _ sz nw] by simp
  note d = inv_data [OF inv]
  note c = inv_cells [OF inv]
  from n c(3) have le: "m_size v \<le> n" by (simp add: Capacity_def)
  have dst: "replicate n Raw = [] @ replicate n Raw @ []" and z: "0 = length []" by simp_all
  have dn: "destroy_n (map Obj (left_behind T (elements v)) @
                replicate (m_capacity v - m_size v) Raw) 0 (m_size v)
              = Some (replicate (m_size v) Raw @ replicate (m_capacity v - m_size v) Raw)"
    using destroy_n_objs [of "[]" "left_behind T (elements v)"
        "replicate (m_capacity v - m_size v) Raw"] d(2)
    by simp
  have dn': "destroy_n (m_data v) 0 (m_size v)
              = Some (replicate (m_size v) Raw @ replicate (m_capacity v - m_size v) Raw)"
    using destroy_n_objs [of "[]" "elements v" "replicate (m_capacity v - m_size v) Raw"] d
    by simp
  from relocation_cases [OF d(1) z d(2) dst z le, of T] show ?thesis
    unfolding Reserve_def using n al
    by cases (simp_all add: dn dn' cells_def c(1) [unfolded cells_def, symmetric]
        split del: if_split)
qed

subsection \<open>EmplaceBack\<close>

text \<open>The capacity a full vector grows to, without a wrap.\<close>

lemma growth_capacity:
  assumes "vector_inv v" and "fits T v"
  shows "(if Size v = 0 then 1 else size_t_mul (Size v) 2) = (if m_size v = 0 then 1 else 2 * m_size v)"
    and "(if m_size v = 0 then 1 else 2 * m_size v) * sizeof T \<le> SIZE_MAX"
    and "(if m_size v = 0 then 1 else 2 * m_size v) * sizeof T \<le> 2 * PTRDIFF_MAX"
proof -
  from assms have s: "0 < sizeof T" "sizeof T \<le> PTRDIFF_MAX" "m_capacity v * sizeof T \<le> PTRDIFF_MAX"
    by (simp_all add: fits_def)
  have "m_size v * sizeof T \<le> m_capacity v * sizeof T"
    using inv_cells(3) [OF assms(1)] by (rule mult_le_mono1)
  from this s(3) have le: "m_size v * sizeof T \<le> PTRDIFF_MAX" by (rule order_trans)
  from s(1) have "m_size v \<le> m_size v * sizeof T" by simp
  from this le have "m_size v \<le> PTRDIFF_MAX" by (rule order_trans)
  with PTRDIFF_MAX_twice have "m_size v * 2 \<le> SIZE_MAX" by simp
  then show "(if Size v = 0 then 1 else size_t_mul (Size v) 2) = (if m_size v = 0 then 1 else 2 * m_size v)"
    by (simp add: Size_def size_t_mul_small)
  from le s(2) show b: "(if m_size v = 0 then 1 else 2 * m_size v) * sizeof T \<le> 2 * PTRDIFF_MAX"
    by simp
  from b PTRDIFF_MAX_twice show "(if m_size v = 0 then 1 else 2 * m_size v) * sizeof T \<le> SIZE_MAX"
    by (rule order_trans)
qed

lemma EmplaceBack_spare:
  assumes inv: "vector_inv v" and spare: "m_size v < m_capacity v"
  shows "EmplaceBack T args v =
     (case arg_value args (elements v) of
        None \<Rightarrow> (if refers_to_element args then Undef else Raise (elem_exn, v, []))
      | Some x \<Rightarrow>
          if arg_throws T args x then Raise (elem_exn, v, [])
          else Val (\<lparr>m_data = cells (after_args T args (elements v) @ [x])
                               (m_capacity v - m_size v - 1),
                     m_capacity = m_capacity v, m_size = m_size v + 1\<rparr>, m_size v))"
proof -
  note c = inv_cells [OF inv]
  let ?k = "m_capacity v - m_size v"
  have raw: "m_size v < length (m_data v)" "m_data v ! m_size v = Raw"
    using c spare nth_cells_Raw [of "elements v" "m_size v" ?k] by simp_all
  have di: "direct_init T args (m_data v) =
     (case arg_value args (elements v) of
        None \<Rightarrow> (if refers_to_element args then Undef else Raise ())
      | Some x \<Rightarrow>
          if arg_throws T args x then Raise ()
          else Val (x, cells (after_args T args (elements v)) ?k))"
    using direct_init_cells [of T args "elements v" ?k] c(1) by simp
  have snoc: "(cells (after_args T args (elements v)) ?k)[m_size v := Obj x]
                = cells (after_args T args (elements v) @ [x]) (?k - 1)" for x
    using cells_snoc [of ?k "after_args T args (elements v)" x] spare c(2) by simp
  show ?thesis
    unfolding EmplaceBack_def construct_in_def using spare raw
    by (auto simp: Capacity_def Size_def di snoc Vector_updates split: option.splits)
qed

lemma EmplaceBack_full:
  assumes inv: "vector_inv v" and fits: "fits T v" and full: "\<not> m_size v < m_capacity v"
  shows "EmplaceBack T args v =
     (if Allocate T (if m_size v = 0 then 1 else 2 * m_size v) = None
      then Raise (bad_alloc, v, [])
      else
        (case arg_value args (elements v) of
           None \<Rightarrow>
             (if refers_to_element args then Undef
              else Raise (elem_exn, v, replicate (if m_size v = 0 then 1 else 2 * m_size v) Raw))
         | Some x \<Rightarrow>
             if arg_throws T args x
             then Raise (elem_exn, v, replicate (if m_size v = 0 then 1 else 2 * m_size v) Raw)
             else if relocates T (after_args T args (elements v))
             then Val (\<lparr>m_data = cells (after_args T args (elements v) @ [x])
                                  ((if m_size v = 0 then 1 else 2 * m_size v) - m_size v - 1),
                        m_capacity = (if m_size v = 0 then 1 else 2 * m_size v),
                        m_size = m_size v + 1\<rparr>, m_size v)
             else Raise (elem_exn,
                         v\<lparr>m_data := cells (left_behind T (after_args T args (elements v))) 0\<rparr>,
                         replicate (m_size v) Raw @ Obj x #
                           replicate ((if m_size v = 0 then 1 else 2 * m_size v) - m_size v - 1) Raw)))"
proof -
  define c where "c = (if m_size v = 0 then 1 else 2 * m_size v)"
  define es where "es = elements v"
  define es' where "es' = after_args T args es"
  note cv = inv_cells [OF inv]
  from cv(3) full have k: "m_capacity v - m_size v = 0" by simp
  have data: "m_data v = cells es 0" and size: "m_size v = length es"
    using cv k by (simp_all add: es_def)
  have len': "length es' = m_size v" by (simp add: es'_def size)
  from fits have sz: "0 < sizeof T" by (simp add: fits_def)
  have cap: "(if Size v = 0 then 1 else size_t_mul (Size v) 2) = c"
    and nw: "c * sizeof T \<le> SIZE_MAX"
    using growth_capacity [OF inv fits] by (simp_all add: c_def)
  have lt: "m_size v < c" by (simp add: c_def)
  have nocap: "\<not> Capacity v > Size v" using full by (simp add: Capacity_def Size_def)
  have caps: "(if m_size v = 0 then 1 else size_t_mul (Size v) 2) = c"
    "(if m_size v = 0 then 1 else size_t_mul (m_size v) 2) = c"
    using cap by (auto simp: Size_def split: if_splits)
  have ltS: "Size v < c" by (simp add: c_def Size_def)
  have di: "direct_init T args (m_data v) =
     (case arg_value args es of
        None \<Rightarrow> (if refers_to_element args then Undef else Raise ())
      | Some x \<Rightarrow> if arg_throws T args x then Raise () else Val (x, cells es' 0))"
    unfolding data es'_def by (rule direct_init_cells)
  have ca: "construct_at T (replicate c Raw) (Size v) args (m_data v) =
     (case arg_value args es of
        None \<Rightarrow> (if refers_to_element args then Undef else Raise ())
      | Some x \<Rightarrow>
          if arg_throws T args x then Raise ()
          else Val ((replicate c Raw)[Size v := Obj x], cells es' 0))"
    using ltS by (simp add: construct_at_def di split: option.splits)
  have "EmplaceBack T args v =
     (if Allocate T c = None
      then Raise (bad_alloc, v, [])
      else
        (case arg_value args es of
           None \<Rightarrow>
             (if refers_to_element args then Undef
              else Raise (elem_exn, v, replicate c Raw))
         | Some x \<Rightarrow>
             if arg_throws T args x
             then Raise (elem_exn, v, replicate c Raw)
             else if relocates T es'
             then Val (\<lparr>m_data = cells (es' @ [x]) (c - m_size v - 1),
                        m_capacity = c, m_size = m_size v + 1\<rparr>, m_size v)
             else Raise (elem_exn, v\<lparr>m_data := cells (left_behind T es') 0\<rparr>,
                         replicate (m_size v) Raw @ Obj x # replicate (c - m_size v - 1) Raw)))"
  proof (cases "Allocate T c")
    case None
    with nocap show ?thesis
      unfolding EmplaceBack_def by (simp add: cap)
  next
    case (Some b)
    then have al: "Allocate T c = Some (replicate c Raw)"
      using Allocate_Some_exact(1) [OF _ sz nw] by simp
    show ?thesis
    proof (cases "arg_value args es")
      case None
      with al nocap show ?thesis
        unfolding EmplaceBack_def by (simp add: cap ca)
    next
      case (Some x)
      show ?thesis
      proof (cases "arg_throws T args x")
        case True
        with al nocap Some show ?thesis
          unfolding EmplaceBack_def by (simp add: cap ca)
      next
        case False
        define nd0 where "nd0 = (replicate c Raw)[Size v := Obj x]"
        define d0 where "d0 = cells es' 0"
        have ca': "construct_at T (replicate c Raw) (Size v) args (m_data v) = Val (nd0, d0)"
          using Some False by (simp add: ca nd0_def d0_def)
        have src: "d0 = [] @ map Obj es' @ []" by (simp add: d0_def cells_def)
        have dst: "nd0 = [] @ replicate (m_size v) Raw @ (Obj x # replicate (c - m_size v - 1) Raw)"
          using lt by (simp add: nd0_def Size_def upd_conv_take_nth_drop min_def)
        have z: "0 = length []" by simp
        have n: "Size v = length es'" by (simp add: Size_def len')
        have le: "Size v \<le> m_size v" by (simp add: Size_def)
        have dn: "destroy_n (map Obj (left_behind T es')) 0 (Size v) = Some (replicate (Size v) Raw)"
          using destroy_n_objs [of "[]" "left_behind T es'" "[]"] by (simp add: n)
        have dn': "destroy_n d0 0 (Size v) = Some (replicate (Size v) Raw)"
          using destroy_n_objs [of "[]" es' "[]"] by (simp add: n d0_def cells_def)
        have d0: "cells es' 0 = d0" by (simp add: d0_def)
        have sv: "Size v = m_size v" by (simp add: Size_def)
        from relocation_cases [OF src z n dst z le, of T] show ?thesis
          unfolding EmplaceBack_def using nocap al Some False
          by cases (simp_all add: cap ca' dn dn' d0 split del: if_split,
                    simp_all add: sv cells_def dst)
      qed
    qed
  qed
  then show ?thesis unfolding c_def es'_def es_def .
qed

section \<open>The capacity after a call, on any vector\<close>

text \<open>
  These facts need no invariant: they follow the code path by path.
\<close>

lemma keeps_capacity_simps [simp]:
  "keeps_capacity c (Val v') = (c \<le> m_capacity v')"
  "keeps_capacity c (Raise (e, v', blk)) = (c \<le> m_capacity v')"
  "keeps_capacity c Undef = True"
  by (simp_all add: keeps_capacity_def)

lemma same_capacity_simps [simp]:
  "same_capacity c (Val v') = (m_capacity v' = c)"
  "same_capacity c (Raise (e, v', blk)) = (m_capacity v' = c)"
  "same_capacity c Undef = True"
  by (simp_all add: same_capacity_def)

lemma same_keeps: "same_capacity c r \<Longrightarrow> keeps_capacity c r"
  by (cases r) auto

lemma state_of_simps [simp]:
  "state_of (Val (v, x)) = Val v"
  "state_of (Raise f) = Raise f"
  "state_of Undef = Undef"
  by (simp_all add: state_of_def)

lemma Reserve_keeps_capacity: "keeps_capacity (m_capacity v) (Reserve T n v)"
  unfolding Reserve_def
  by (simp add: Capacity_def split: res.split option.split prod.split)

lemma Reserve_same_capacity: "n \<le> m_capacity v \<Longrightarrow> same_capacity (m_capacity v) (Reserve T n v)"
  by (simp add: Reserve_def Capacity_def)

lemma Reserve_capacity_ValD: "Reserve T n v = Val v' \<Longrightarrow> m_capacity v \<le> m_capacity v'"
  using Reserve_keeps_capacity [of v T n] by simp

lemma Resize_keeps_capacity: "keeps_capacity (m_capacity v) (Resize T n v)"
proof (cases "Reserve T n v")
  case (Val v1)
  from Reserve_capacity_ValD [OF Val] Val show ?thesis
    unfolding Resize_def by (simp split: res.split option.split)
next
  case (Raise r)
  with Reserve_keeps_capacity [of v T n] show ?thesis
    by (cases r) (simp add: Resize_def)
next
  case Undef
  then show ?thesis by (simp add: Resize_def)
qed

lemma Resize_same_capacity:
  assumes "n \<le> m_capacity v"
  shows "same_capacity (m_capacity v) (Resize T n v)"
proof -
  from assms have "Reserve T n v = Val v" by (simp add: Reserve_def Capacity_def)
  then show ?thesis
    unfolding Resize_def by (simp split: res.split option.split)
qed

lemma PopBack_same_capacity: "same_capacity (m_capacity v) (PopBack v)"
  unfolding PopBack_def by (simp split: option.split)

lemma Erase_same_capacity: "same_capacity (m_capacity v) (state_of (Erase T pos v))"
  unfolding Erase_def by (simp split: res.split option.split)

text \<open>
  A construction or a relocation that returned has stayed inside the destination block.
\<close>

lemma construct_at_ValD:
  "construct_at T buf i args d = Val (nd, d') \<Longrightarrow> i < length buf \<and> length nd = length buf"
  by (auto simp: construct_at_def split: if_splits res.splits)

lemma uninitialized_copy_n_length:
  "uninitialized_copy_n T src soff n dst doff = Val nd \<Longrightarrow>
     length nd = length dst \<and> (0 < n \<longrightarrow> doff + n \<le> length dst)"
proof (induction n arbitrary: dst soff doff)
  case 0
  then show ?case by simp
next
  case (Suc n)
  from Suc.prems obtain y where ok: "doff < length dst"
    and rec: "uninitialized_copy_n T src (Suc soff) n (dst[doff := Obj y]) (Suc doff) = Val nd"
    by (auto split: if_splits slot.splits option.splits)
  from Suc.IH [OF rec] ok show ?case by (cases n) auto
qed

lemma uninitialized_move_n_length:
  "uninitialized_move_n T src soff n dst doff = Val (d, nd) \<Longrightarrow>
     length nd = length dst \<and> (0 < n \<longrightarrow> doff + n \<le> length dst)"
proof (induction n arbitrary: src dst soff doff)
  case 0
  then show ?case by simp
next
  case (Suc n)
  from Suc.prems obtain x y where ok: "doff < length dst"
    and rec: "uninitialized_move_n T (src[soff := Obj x]) (Suc soff) n (dst[doff := Obj y]) (Suc doff)
                = Val (d, nd)"
    by (auto split: if_splits slot.splits option.splits)
  from Suc.IH [OF rec] ok show ?case by (cases n) auto
qed

lemma EmplaceBack_keeps_capacity: "keeps_capacity (m_capacity v) (state_of (EmplaceBack T args v))"
proof (cases "Capacity v > Size v")
  case True
  then show ?thesis
    unfolding EmplaceBack_def by (simp split: res.split)
next
  case False
  show ?thesis
  proof (cases "Allocate T (if Size v = 0 then 1 else size_t_mul (Size v) 2)")
    case None
    with False show ?thesis unfolding EmplaceBack_def by simp
  next
    case (Some new_data)
    show ?thesis
    proof (cases "construct_at T new_data (Size v) args (m_data v)")
      case (Val p)
      obtain nd0 d0 where p: "p = (nd0, d0)" by (cases p)
      from construct_at_ValD [OF Val [unfolded p]] Allocate_length [OF Some] False
      have "m_capacity v \<le> (if Size v = 0 then 1 else size_t_mul (Size v) 2)"
        by (simp add: Capacity_def Size_def)
      with False Some Val p show ?thesis
        unfolding EmplaceBack_def
        by (cases "nothrow_move_constructible T \<or> \<not> copy_constructible T")
           (simp_all split: res.split option.split prod.split split del: if_split)
    next
      case (Raise u)
      with False Some show ?thesis unfolding EmplaceBack_def by simp
    next
      case Undef
      with False Some show ?thesis unfolding EmplaceBack_def by simp
    qed
  qed
qed

lemma PushBack_keeps_capacity: "keeps_capacity (m_capacity v) (PushBack T val v)"
  using EmplaceBack_keeps_capacity [of v T val]
  by (cases "EmplaceBack T val v") (auto simp: PushBack_def)

lemma CompletelyFilled_keeps_capacity:
  assumes cap: "\<not> Capacity v > Size v" and pos: "offset \<le> m_size v"
  shows "keeps_capacity (m_capacity v) (CompletelyFilled T offset args v)"
proof (cases "Allocate T (if Size v = 0 then 1 else size_t_mul (Size v) 2)")
  case None
  then show ?thesis by (simp add: CompletelyFilled_def)
next
  case (Some new_data)
  note len = Allocate_length [OF Some]
  show ?thesis
  proof (cases "nothrow_move_constructible T \<or> \<not> copy_constructible T")
    case True
    show ?thesis
    proof (cases "m_size v > offset")
      case more: True
      from Some len cap pos True more show ?thesis
        unfolding CompletelyFilled_def
        by (auto simp: Capacity_def Size_def split: res.split option.split prod.split
              dest!: construct_at_ValD uninitialized_move_n_length)
    next
      case last: False
      from Some len cap pos True last show ?thesis
        unfolding CompletelyFilled_def
        by (auto simp: Capacity_def Size_def split: res.split option.split prod.split
              dest!: construct_at_ValD uninitialized_move_n_length)
    qed
  next
    case False
    show ?thesis
    proof (cases "m_size v > offset")
      case more: True
      from Some len cap pos False more show ?thesis
        unfolding CompletelyFilled_def
        by (auto simp: Capacity_def Size_def split: res.split option.split prod.split
              dest!: construct_at_ValD uninitialized_copy_n_length)
    next
      case last: False
      from Some len cap pos False last show ?thesis
        unfolding CompletelyFilled_def
        by (auto simp: Capacity_def Size_def split: res.split option.split prod.split
              dest!: construct_at_ValD uninitialized_copy_n_length)
    qed
  qed
qed

lemma BigCapacity_keeps_capacity: "keeps_capacity (m_capacity v) (BigCapacity T offset args v)"
proof (cases "offset = m_size v")
  case True
  with EmplaceBack_keeps_capacity [of v T args] show ?thesis
    by (cases "EmplaceBack T args v") (auto simp: BigCapacity_def)
next
  case False
  then show ?thesis
    unfolding BigCapacity_def
    by (simp split: res.split option.split prod.split)
qed

lemma Emplace_keeps_capacity: "keeps_capacity (m_capacity v) (state_of (Emplace T pos args v))"
proof (cases "pos > m_size v")
  case True
  then show ?thesis by (simp add: Emplace_def)
next
  case False
  show ?thesis
  proof (cases "Capacity v > Size v")
    case True
    with False BigCapacity_keeps_capacity [of v T pos args] show ?thesis
      by (cases "BigCapacity T pos args v") (auto simp: Emplace_def)
  next
    case full: False
    with False CompletelyFilled_keeps_capacity [of v pos T args] show ?thesis
      by (cases "CompletelyFilled T pos args v") (auto simp: Emplace_def)
  qed
qed

lemma Insert_keeps_capacity: "keeps_capacity (m_capacity v) (state_of (Insert T pos val v))"
  unfolding Insert_def by (rule Emplace_keeps_capacity)

lemma CopyAssign_keeps_capacity: "keeps_capacity (m_capacity v) (CopyAssign T rhs v)"
proof (cases "m_size rhs > Capacity v")
  case True
  then show ?thesis
    unfolding CopyAssign_def Vector_copy_def Swap_def
    by (simp add: Capacity_def split: res.split option.split prod.split)
next
  case False
  then show ?thesis
    unfolding CopyAssign_def
    by (cases "m_size v < m_size rhs"; cases "m_size v > m_size rhs")
       (simp_all split: res.split option.split prod.split)
qed

lemma exec_keeps_capacity: "\<not> exchanges op \<Longrightarrow> keeps_capacity (m_capacity v) (exec T op v)"
  by (cases op)
     (simp_all add: Reserve_keeps_capacity Resize_keeps_capacity PushBack_keeps_capacity
        same_keeps [OF PopBack_same_capacity] EmplaceBack_keeps_capacity Emplace_keeps_capacity
        Insert_keeps_capacity same_keeps [OF Erase_same_capacity] CopyAssign_keeps_capacity)

section \<open>Insertions on a vector that satisfies the invariant\<close>

subsection \<open>Emplace with spare capacity\<close>

lemma snoc_decomp:
  assumes "offset < length es"
  shows "es = take offset es @ butlast (drop offset es) @ [last es]"
    and "drop offset es = butlast (drop offset es) @ [last es]"
proof -
  from assms have ne: "drop offset es \<noteq> []" by simp
  from assms have "last (drop offset es) = last es" by simp
  with append_butlast_last_id [OF ne]
  show d: "drop offset es = butlast (drop offset es) @ [last es]" by simp
  have "es = take offset es @ drop offset es" by simp
  with d show "es = take offset es @ butlast (drop offset es) @ [last es]" by simp
qed

text \<open>
  The branch of \<^verbatim>\<open>BigCapacity\<close> that shifts: the call returns exactly when the temporary
  is built, the last element is moved into the raw cell, and no move assignment throws.
\<close>

lemma BigCapacity_shift:
  assumes inv: "vector_inv v" and spare: "m_size v < m_capacity v" and off: "offset < m_size v"
  shows "(BigCapacity T offset args v = Val v') =
     (\<exists>x. braced_value T args (elements v) = Some x \<and>
        \<not> (\<exists>y. arg_value args (elements v) = Some y \<and> arg_throws T args y) \<and>
        move_construct T (last (after_args T args (elements v))) \<noteq> None \<and>
        list_all (\<lambda>y. \<not> move_assign_throws T y)
          (butlast (drop offset (after_args T args (elements v)))) \<and>
        \<not> move_assign_throws T x \<and>
        v' = \<lparr>m_data = cells (take offset (after_args T args (elements v)) @ [x] @
                               drop offset (after_args T args (elements v)))
                          (m_capacity v - m_size v - 1),
              m_capacity = m_capacity v, m_size = m_size v + 1\<rparr>)"
proof -
  define es where "es = elements v"
  define es1 where "es1 = after_args T args es"
  define k where "k = m_capacity v - m_size v"
  define l where "l = last es1"
  define ys where "ys = butlast (drop offset es1)"
  define p where "p = map Obj (take offset es1)"
  define r where "r = Obj l # replicate (k - 1) Raw"
  note cv = inv_cells [OF inv]
  have data: "m_data v = cells es k" and size: "m_size v = length es"
    using cv by (simp_all add: es_def k_def)
  have len1: "length es1 = m_size v" by (simp add: es1_def size)
  have k: "0 < k" using spare by (simp add: k_def)
  from off len1 have off1: "offset < length es1" by simp
  have dec: "es1 = take offset es1 @ ys @ [l]" and dr: "drop offset es1 = ys @ [l]"
    using snoc_decomp [OF off1] by (simp_all add: ys_def l_def)
  have lys: "length ys = m_size v - 1 - offset" by (simp add: ys_def len1)
  have lp: "length p = offset" using off1 by (simp add: p_def)
  have ne: "offset \<noteq> m_size v" and pos: "0 < m_size v" using off by simp_all
  have li: "list_init T args (m_data v) =
     (case braced_value T args es of
        None \<Rightarrow> (if refers_to_element args then Undef else Raise ())
      | Some x \<Rightarrow>
          if (\<exists>y. arg_value args es = Some y \<and> arg_throws T args y) then Raise ()
          else Val (x, cells es1 k))"
    unfolding data es1_def by (rule list_init_cells)
  have nth: "es1 ! (m_size v - 1) = l"
  proof -
    from off1 have "es1 \<noteq> []" by auto
    from last_conv_nth [OF this] show ?thesis by (simp add: l_def len1)
  qed
  have upd: "es1[m_size v - 1 := w] = take offset es1 @ ys @ [w]" for w
  proof -
    have "length (take offset es1 @ ys) = m_size v - 1"
      using off1 len1 lys by simp
    then have "(take offset es1 @ ys @ [l])[m_size v - 1 := w] = take offset es1 @ ys @ [w]"
      by (metis append_assoc list_update_length)
    with dec show ?thesis by simp
  qed
  have ci: "construct_in T (cells es1 k) (m_size v) (Forward (MovedElement (m_size v - 1))) =
      (if move_construct T l = None then Raise ()
       else Val (p @ map Obj ys @ Obj (moved_from T l) # r))"
  proof -
    have raw: "m_size v < length (cells es1 k)" "cells es1 k ! m_size v = Raw"
      using k nth_cells_Raw [of es1 "m_size v" k] by (simp_all add: len1)
    have rv: "ref_value (MovedElement (m_size v - 1)) es1 = Some l"
      using pos len1 nth by simp
    have cf: "construct_from T (MovedElement (m_size v - 1)) (cells es1 k) =
       (if move_construct T l = None then Raise ()
        else Val (l, cells (take offset es1 @ ys @ [moved_from T l]) k))"
      using construct_from_cells [of T "MovedElement (m_size v - 1)" es1 k] rv nth
        upd [of "moved_from T l"]
      by simp
    have len2: "length (take offset es1 @ ys @ [moved_from T l]) = m_size v"
      using off1 len1 lys by simp
    have sn: "(cells (take offset es1 @ ys @ [moved_from T l]) k)[m_size v := Obj l] =
        p @ map Obj ys @ Obj (moved_from T l) # r"
      using cells_snoc [OF k, of "take offset es1 @ ys @ [moved_from T l]" l]
      unfolding len2 by (simp add: cells_def p_def r_def)
    show ?thesis
      unfolding construct_in_def direct_init_def using raw cf sn
      by simp
  qed
  have a1: "offset + (m_size v - 1 - offset) = m_size v - 1" and a2: "Suc (m_size v - 1) = m_size v"
    using off by simp_all
  obtain zs where smb:
    "std_move_backward T (p @ map Obj ys @ Obj (moved_from T l) # r) (m_size v - 1 - offset)
         (m_size v - 1) (m_size v) =
       (if \<forall>y\<in>set ys. \<not> move_assign_throws T y
        then Val (p @ Obj (hd (map (moved_from T) ys @ [moved_from T l])) # map Obj ys @ r)
        else Raise (p @ map Obj zs @ r))"
    using std_move_backward_cells [of ys T p "moved_from T l" r]
    unfolding lys lp a1 a2 by blast
  have av: "assign_value T (p @ Obj z # map Obj ys @ r) offset x =
     (if move_assign_throws T x then Raise () else Val (p @ Obj x # map Obj ys @ r))" for z x
    using assign_value_cells [of T p z "map Obj ys @ r" x] by (simp add: lp)
  have fin: "p @ Obj x # map Obj ys @ r = cells (take offset es1 @ [x] @ drop offset es1) (k - 1)"
    for x
    by (simp add: dr cells_def p_def r_def)
  have "(BigCapacity T offset args v = Val v') =
     (\<exists>x. braced_value T args es = Some x \<and>
        \<not> (\<exists>y. arg_value args es = Some y \<and> arg_throws T args y) \<and>
        move_construct T l \<noteq> None \<and>
        list_all (\<lambda>y. \<not> move_assign_throws T y) ys \<and>
        \<not> move_assign_throws T x \<and>
        v' = \<lparr>m_data = cells (take offset es1 @ [x] @ drop offset es1) (k - 1),
              m_capacity = m_capacity v, m_size = m_size v + 1\<rparr>)"
  proof (cases "braced_value T args es")
    case None
    with li ne show ?thesis
      unfolding BigCapacity_def by simp
  next
    case (Some x)
    show ?thesis
    proof (cases "\<exists>y. arg_value args es = Some y \<and> arg_throws T args y")
      case True
      with li ne Some show ?thesis
        unfolding BigCapacity_def by simp
    next
      case False
      with li Some have li': "list_init T args (m_data v) = Val (x, cells es1 k)" by simp
      show ?thesis
      proof (cases "move_construct T l = None")
        case True
        with li' ne pos ci Some show ?thesis
          unfolding BigCapacity_def by simp
      next
        case mc: False
        show ?thesis
        proof (cases "\<forall>y\<in>set ys. \<not> move_assign_throws T y")
          case True
          define z where "z = hd (map (moved_from T) ys @ [moved_from T l])"
          from smb True have smb':
            "std_move_backward T (p @ map Obj ys @ Obj (moved_from T l) # r) (m_size v - 1 - offset)
               (m_size v - 1) (m_size v) = Val (p @ Obj z # map Obj ys @ r)"
            by (simp add: z_def)
          have s1: "BigCapacity T offset args v =
             (case assign_value T (p @ Obj z # map Obj ys @ r) offset x of
                Raise _ \<Rightarrow> Raise (elem_exn, v\<lparr>m_data := p @ Obj z # map Obj ys @ r\<rparr>, [])
              | Undef \<Rightarrow> Undef
              | Val d2 \<Rightarrow> Val (v\<lparr>m_data := d2, m_size := m_size v + 1\<rparr>))"
            unfolding BigCapacity_def using li' ne pos ci mc smb' by simp
          have "BigCapacity T offset args v =
             (if move_assign_throws T x
              then Raise (elem_exn, v\<lparr>m_data := p @ Obj z # map Obj ys @ r\<rparr>, [])
              else Val (v\<lparr>m_data := p @ Obj x # map Obj ys @ r, m_size := m_size v + 1\<rparr>))"
            unfolding s1 av by simp
          with Some False mc True show ?thesis
            by (auto simp: list_all_iff fin Vector_updates)
        next
          case all: False
          with li' ne pos ci mc smb Some show ?thesis
            unfolding BigCapacity_def
            by (auto simp: list_all_iff)
        qed
      qed
    qed
  qed
  then show ?thesis unfolding k_def [symmetric] ys_def l_def es1_def es_def
    by (simp add: k_def)
qed

subsection \<open>Emplace without spare capacity\<close>

text \<open>
  \<^verbatim>\<open>CompletelyFilled\<close> on a full vector returns exactly when the allocation succeeds, the
  prefix is relocated, the new element is constructed from its arguments as they are
  after the relocation of the prefix, and the suffix is relocated.
\<close>

lemma CompletelyFilled_full:
  assumes inv: "vector_inv v" and fits: "fits T v" and full: "\<not> m_size v < m_capacity v"
    and off: "offset \<le> m_size v"
  shows "(CompletelyFilled T offset args v = Val v') =
     (Allocate T (if m_size v = 0 then 1 else 2 * m_size v) \<noteq> None \<and>
      relocates T (take offset (elements v)) \<and>
      (\<exists>x. arg_value args (left_behind T (take offset (elements v)) @ drop offset (elements v))
             = Some x \<and>
           \<not> arg_throws T args x \<and>
           relocates T (drop offset (after_args T args
              (left_behind T (take offset (elements v)) @ drop offset (elements v)))) \<and>
           v' = \<lparr>m_data = cells (take offset (elements v) @ [x] @
                      drop offset (after_args T args
                        (left_behind T (take offset (elements v)) @ drop offset (elements v))))
                      ((if m_size v = 0 then 1 else 2 * m_size v) - m_size v - 1),
                 m_capacity = (if m_size v = 0 then 1 else 2 * m_size v),
                 m_size = m_size v + 1\<rparr>))"
proof -
  define c where "c = (if m_size v = 0 then 1 else 2 * m_size v)"
  define es where "es = elements v"
  define xs where "xs = take offset es"
  define es_p where "es_p = left_behind T xs @ drop offset es"
  define es2 where "es2 = after_args T args es_p"
  define ys where "ys = drop offset es2"
  define d1 where "d1 = cells es_p 0"
  define nd1 where "nd1 = map Obj xs @ replicate (c - offset) (Raw :: 'a slot)"
  define d2 where "d2 = cells es2 0"
  define nd2 :: "'a \<Rightarrow> 'a slot list"
    where "nd2 = (\<lambda>x. map Obj xs @ Obj x # replicate (c - offset - 1) Raw)"
  define fin :: "'a slot list \<Rightarrow> 'a slot list \<Rightarrow> ('a Vector, 'a failure) res"
    where "fin = (\<lambda>d3 nd3.
     case destroy_n d3 0 (Size v) of
       None \<Rightarrow> Undef
     | Some _ \<Rightarrow>
         Val \<lparr>m_data = nd3, m_capacity = (if Size v = 0 then 1 else size_t_mul (Size v) 2),
              m_size = m_size v + 1\<rparr>)"
  define suffix :: "'a slot list \<Rightarrow> 'a slot list \<Rightarrow> ('a Vector, 'a failure) res"
    where "suffix = (\<lambda>nd2 d2.
     case
       (if m_size v > offset then
          (if nothrow_move_constructible T \<or> \<not> copy_constructible T then
             (case uninitialized_move_n T d2 offset (m_size v - offset) nd2 (offset + 1) of
                Val (d, nd) \<Rightarrow> Val (d, nd)
              | Raise d \<Rightarrow> Raise (elem_exn, v\<lparr>m_data := d\<rparr>, nd2)
              | Undef \<Rightarrow> Undef)
           else
             (case uninitialized_copy_n T d2 offset (m_size v - offset) nd2 (offset + 1) of
                Val nd \<Rightarrow> Val (d2, nd)
              | Raise _ \<Rightarrow>
                  (case destroy_n nd2 0 (offset + 1) of
                     None \<Rightarrow> Undef
                   | Some nd \<Rightarrow> Raise (elem_exn, v\<lparr>m_data := d2\<rparr>, nd))
              | Undef \<Rightarrow> Undef))
        else Val (d2, nd2))
     of
       Raise r \<Rightarrow> Raise r
     | Undef \<Rightarrow> Undef
     | Val (d3, nd3) \<Rightarrow> fin d3 nd3)"
  define ctor :: "'a slot list \<Rightarrow> 'a slot list \<Rightarrow> ('a Vector, 'a failure) res"
    where "ctor = (\<lambda>nd1 d1.
     case construct_at T nd1 offset args d1 of
       Raise _ \<Rightarrow> Raise (elem_exn, v\<lparr>m_data := d1\<rparr>, nd1)
     | Undef \<Rightarrow> Undef
     | Val (nd2, d2) \<Rightarrow> suffix nd2 d2)"
  have unf: "CompletelyFilled T offset args v =
     (case Allocate T (if Size v = 0 then 1 else size_t_mul (Size v) 2) of
        None \<Rightarrow> Raise (bad_alloc, v, [])
      | Some new_data \<Rightarrow>
          (case
             (if nothrow_move_constructible T \<or> \<not> copy_constructible T then
                (case uninitialized_move_n T (m_data v) 0 offset new_data 0 of
                   Val (d, nd) \<Rightarrow> Val (d, nd)
                 | Raise d \<Rightarrow> Raise (elem_exn, v\<lparr>m_data := d\<rparr>, new_data)
                 | Undef \<Rightarrow> Undef)
              else
                (case uninitialized_copy_n T (m_data v) 0 offset new_data 0 of
                   Val nd \<Rightarrow> Val (m_data v, nd)
                 | Raise _ \<Rightarrow>
                     (case destroy_n new_data offset 1 of
                        None \<Rightarrow> Undef
                      | Some nd \<Rightarrow> Raise (elem_exn, v, nd))
                 | Undef \<Rightarrow> Undef))
           of
             Raise r \<Rightarrow> Raise r
           | Undef \<Rightarrow> Undef
           | Val (d1, nd1) \<Rightarrow> ctor nd1 d1))"
    unfolding CompletelyFilled_def ctor_def suffix_def fin_def ..
  note cv = inv_cells [OF inv]
  from cv(3) full have k: "m_capacity v - m_size v = 0" by simp
  have data: "m_data v = cells es 0" and size: "m_size v = length es"
    using cv k by (simp_all add: es_def)
  have lxs: "length xs = offset" using off size by (simp add: xs_def)
  have lp: "length es_p = m_size v" using off size lxs by (simp add: es_p_def)
  have l2: "length es2 = m_size v" by (simp add: es2_def lp)
  have lys: "length ys = m_size v - offset" by (simp add: ys_def l2)
  from fits have sz: "0 < sizeof T" by (simp add: fits_def)
  have cap: "(if Size v = 0 then 1 else size_t_mul (Size v) 2) = c"
    and nw: "c * sizeof T \<le> SIZE_MAX"
    using growth_capacity [OF inv fits] by (simp_all add: c_def)
  have lt: "m_size v < c" by (simp add: c_def)
  have sv: "Size v = m_size v" by (simp add: Size_def)
  have c1: "m_size v = 0 \<Longrightarrow> c = Suc 0" and c2: "0 < m_size v \<Longrightarrow> size_t_mul (m_size v) 2 = c"
    using cap by (auto simp: Size_def split: if_splits)
  have z: "0 = length ([] :: 'a slot list)" by simp
  have prefix: "(CompletelyFilled T offset args v = Val v') =
     (Allocate T c \<noteq> None \<and> relocates T xs \<and> ctor nd1 d1 = Val v')"
  proof (cases "Allocate T c")
    case None
    then show ?thesis by (simp add: unf cap)
  next
    case (Some b)
    then have al: "Allocate T c = Some (replicate c Raw)"
      using Allocate_Some_exact(1) [OF _ sz nw] by simp
    have src: "m_data v = [] @ map Obj xs @ map Obj (drop offset es)"
      by (simp add: data cells_def xs_def flip: map_append)
    have dst: "replicate c Raw = [] @ replicate c (Raw :: 'a slot) @ []" by simp
    have n: "offset = length xs" by (simp add: lxs)
    have le: "offset \<le> c" using off lt by simp
    have d1: "map Obj (left_behind T xs) @ map Obj (drop offset es) = d1"
      by (simp add: d1_def es_p_def cells_def)
    have raw: "destroy_n (replicate c Raw) offset (Suc 0) = (None :: 'a slot list option)"
      using off lt by simp
    show ?thesis
    proof (rule relocation_cases [OF src z n dst z le, of T], goal_cases)
      case 1
      then show ?case
        by (simp add: unf cap al d1 nd1_def)
    next
      case 2
      then show ?case
        by (simp add: unf cap al)
    next
      case 3
      from 3(4) have "d1 = m_data v"
        by (simp add: d1_def es_p_def data xs_def)
      with 3 show ?case
        by (simp add: unf cap al nd1_def)
    next
      case 4
      then show ?case
        by (simp add: unf cap al raw)
    qed
  qed
  have di: "direct_init T args d1 =
     (case arg_value args es_p of
        None \<Rightarrow> (if refers_to_element args then Undef else Raise ())
      | Some x \<Rightarrow> if arg_throws T args x then Raise () else Val (x, d2))"
    unfolding d1_def d2_def es2_def by (rule direct_init_cells)
  have raw1: "offset < length nd1" "nd1 ! offset = Raw"
    using off lt lxs by (simp_all add: nd1_def nth_append)
  have upd: "nd1[offset := Obj x] = nd2 x" for x
    using off lt lxs by (simp add: nd1_def nd2_def list_update_append upd_conv_take_nth_drop
        Suc_diff_Suc flip: replicate_Suc)
  have construct: "(ctor nd1 d1 = Val v') =
     (\<exists>x. arg_value args es_p = Some x \<and> \<not> arg_throws T args x \<and> suffix (nd2 x) d2 = Val v')"
    unfolding ctor_def construct_at_def using raw1
    by (simp add: di upd split: option.split)
  have relocate: "(suffix (nd2 x) d2 = Val v') =
     (relocates T ys \<and>
      v' = \<lparr>m_data = cells (xs @ [x] @ ys) (c - m_size v - 1), m_capacity = c,
            m_size = m_size v + 1\<rparr>)" for x
  proof (cases "m_size v > offset")
    case False
    with off have eq: "offset = m_size v" by simp
    then have ys: "ys = []" by (simp add: ys_def l2)
    have dn: "destroy_n d2 0 (m_size v) = Some (replicate (m_size v) Raw)"
      using destroy_n_objs [of "[]" es2 "[]"] by (simp add: d2_def cells_def l2)
    show ?thesis
      unfolding suffix_def fin_def using False
      by (auto simp: sv dn c1 c2 ys relocates_def nd2_def cells_def eq)
  next
    case True
    have src: "d2 = map Obj (take offset es2) @ map Obj ys @ []"
      by (simp add: d2_def cells_def ys_def flip: map_append)
    have dst: "nd2 x = (map Obj xs @ [Obj x]) @ replicate (c - offset - 1) Raw @ []"
      by (simp add: nd2_def)
    have so: "offset = length (map Obj (take offset es2))" using off l2 by simp
    have n: "m_size v - offset = length ys" by (simp add: lys)
    have dof: "offset + 1 = length (map Obj xs @ [Obj x])" by (simp add: lxs)
    have le: "m_size v - offset \<le> c - offset - 1" using lt by simp
    have dn: "destroy_n (map Obj (take offset es2) @ map Obj zs) 0 (m_size v)
                = Some (replicate (m_size v) Raw)" if "length zs = length ys" for zs
    proof -
      have "length (take offset es2 @ zs) = m_size v"
        using that off l2 lys by simp
      with destroy_n_objs [of "[]" "take offset es2 @ zs" "[]"] show ?thesis by simp
    qed
    have dn2: "destroy_n d2 0 (m_size v) = Some (replicate (m_size v) Raw)"
      using dn [of ys] src by simp
    have dnp: "destroy_n (nd2 x) 0 (Suc offset) = Some (replicate (Suc offset) Raw @
                 replicate (c - offset - 1) Raw)"
      using destroy_n_objs [of "[]" "xs @ [x]" "replicate (c - offset - 1) Raw"]
      by (simp add: nd2_def lxs)
    have res: "(map Obj xs @ [Obj x]) @ map Obj ys @ replicate (c - offset - 1 - (m_size v - offset)) Raw @ []
                 = cells (xs @ [x] @ ys) (c - m_size v - 1)"
      using off by (simp add: cells_def)
    show ?thesis
    proof (rule relocation_cases [OF src so n dst dof le, of T], goal_cases)
      case 1
      with True show ?case
        unfolding suffix_def fin_def
        by (auto simp: sv c1 c2 dn cells_def)
    next
      case 2
      with True show ?case
        unfolding suffix_def fin_def by simp
    next
      case 3
      with True show ?case
        unfolding suffix_def fin_def
        by (auto simp: sv c1 c2 dn2 cells_def)
    next
      case 4
      with True show ?case
        unfolding suffix_def fin_def by (simp add: dnp del: destroy_n.simps)
    qed
  qed
  have "(CompletelyFilled T offset args v = Val v') =
     (Allocate T c \<noteq> None \<and> relocates T xs \<and>
      (\<exists>x. arg_value args es_p = Some x \<and> \<not> arg_throws T args x \<and> relocates T ys \<and>
           v' = \<lparr>m_data = cells (xs @ [x] @ ys) (c - m_size v - 1), m_capacity = c,
                 m_size = m_size v + 1\<rparr>))"
    unfolding prefix construct relocate ..
  then show ?thesis
    unfolding ys_def es2_def es_p_def xs_def es_def c_def .
qed

subsection \<open>What a returning insertion leaves\<close>

lemma left_behind_relocates: "relocates T xs \<Longrightarrow> left_behind T xs = moved_out T xs"
  by (auto simp: relocates_def left_behind_def moved_out_def list_all_iff
      intro: partially_moved_all)

lemma length_moved_out [simp]: "length (moved_out T xs) = length xs"
  by (simp add: moved_out_def)

lemma after_args_same: "\<not> moves_element args \<Longrightarrow> after_args T args es = es"
  by (cases "(T, args, es)" rule: after_args.cases) simp_all

lemma arg_value_external:
  "\<not> refers_to_element args \<Longrightarrow> arg_value args es = arg_value args []"
  "\<not> refers_to_element args \<Longrightarrow> braced_value T args es = braced_value T args []"
  by (cases args rule: refers_to_element.cases; simp)+

lemma arg_value_length:
  "length es' = length es \<Longrightarrow> (arg_value args es' = None) = (arg_value args es = None)"
  by (cases args rule: refers_to_element.cases) simp_all

lemma inserted_vector:
  assumes "v' = \<lparr>m_data = cells (A @ [x] @ B) k, m_capacity = c, m_size = n + 1\<rparr>"
    and "length A = pos" and "length A + length B = n" and "c = n + 1 + k"
  shows "vector_inv v'" and "Size v' = n + 1" and "at v' pos = Some x"
    and "elements v' = A @ [x] @ B" and "Capacity v' = c"
proof -
  have len: "length (A @ [x] @ B) = n + 1" using assms(3) by simp
  have v': "v' = \<lparr>m_data = cells (A @ [x] @ B) k, m_capacity = length (A @ [x] @ B) + k,
                  m_size = length (A @ [x] @ B)\<rparr>"
    unfolding len assms(4) [symmetric] by (rule assms(1))
  show "vector_inv v'" unfolding v' by (rule cells_inv)
  show "Size v' = n + 1" using assms(1) by (simp add: Size_def)
  show "Capacity v' = c" using assms(1) by (simp add: Capacity_def)
  show "elements v' = A @ [x] @ B" unfolding v' by (rule elements_cells)
  have "pos < length (A @ [x] @ B)" using assms(2) by simp
  from at_cells [OF this, of k] have "at v' pos = Some ((A @ [x] @ B) ! pos)"
    unfolding v' .
  with assms(2) show "at v' pos = Some x" by (simp add: nth_append)
qed

text \<open>
  \<^verbatim>\<open>EmplaceBack\<close> on a valid vector returns exactly when the new element is constructed
  and, on the growth path, the allocation succeeds and the elements are relocated.
\<close>

lemma EmplaceBack_Val:
  assumes inv: "vector_inv v" and fits: "fits T v"
  shows "(EmplaceBack T args v = Val (v', r)) =
     (\<exists>x. arg_value args (elements v) = Some x \<and> \<not> arg_throws T args x \<and> r = m_size v \<and>
        (if m_size v < m_capacity v
         then v' = \<lparr>m_data = cells (after_args T args (elements v) @ [x])
                               (m_capacity v - m_size v - 1),
                    m_capacity = m_capacity v, m_size = m_size v + 1\<rparr>
         else Allocate T (if m_size v = 0 then 1 else 2 * m_size v) \<noteq> None \<and>
              relocates T (after_args T args (elements v)) \<and>
              v' = \<lparr>m_data = cells (after_args T args (elements v) @ [x])
                                ((if m_size v = 0 then 1 else 2 * m_size v) - m_size v - 1),
                    m_capacity = (if m_size v = 0 then 1 else 2 * m_size v),
                    m_size = m_size v + 1\<rparr>))"
proof (cases "m_size v < m_capacity v")
  case True
  show ?thesis
    unfolding EmplaceBack_spare [OF inv True] using True
    by (auto split: option.splits)
next
  case False
  show ?thesis
    unfolding EmplaceBack_full [OF inv fits False] using False
    by (auto split: option.splits)
qed

text \<open>
  A returning \<^verbatim>\<open>Emplace\<close> on a valid vector: the vector it leaves, with the value of the
  new element in each of the three branches of the code.
\<close>

lemma Emplace_Val:
  assumes inv: "vector_inv v" and fits: "fits T v" and e: "Emplace T pos args v = Val (v', r)"
  shows "\<exists>x A B k.
     r = pos \<and> pos \<le> m_size v \<and>
     v' = \<lparr>m_data = cells (A @ [x] @ B) k, m_capacity = m_size v + 1 + k, m_size = m_size v + 1\<rparr> \<and>
     length A = pos \<and> length A + length B = m_size v \<and>
     m_size v + 1 + k =
       (if m_size v < m_capacity v then m_capacity v
        else if m_size v = 0 then 1 else 2 * m_size v) \<and>
     Some x =
       (if m_size v < m_capacity v
        then if pos = m_size v then arg_value args (elements v)
             else braced_value T args (elements v)
        else arg_value args (moved_out T (take pos (elements v)) @ drop pos (elements v))) \<and>
     (\<not> moves_element args \<longrightarrow> A = take pos (elements v) \<and> B = drop pos (elements v))"
proof -
  note cv = inv_cells [OF inv]
  from e have pos: "pos \<le> m_size v" and r: "r = pos"
    by (auto simp: Emplace_def split: if_splits res.splits)
  from pos cv(2) have lt: "length (take pos (elements v)) = pos" by simp
  show ?thesis
  proof (cases "m_size v < m_capacity v")
    case True
    with e pos have b: "BigCapacity T pos args v = Val v'"
      by (auto simp: Emplace_def Capacity_def Size_def split: res.splits)
    show ?thesis
    proof (cases "pos = m_size v")
      case last: True
      with b obtain r' where "EmplaceBack T args v = Val (v', r')"
        by (auto simp: BigCapacity_def split: res.splits)
      with EmplaceBack_Val [OF inv fits, where args = args and v' = v' and r = r'] True
      obtain x where x: "arg_value args (elements v) = Some x"
        and v': "v' = \<lparr>m_data = cells (after_args T args (elements v) @ [x])
                               (m_capacity v - m_size v - 1),
                    m_capacity = m_capacity v, m_size = m_size v + 1\<rparr>"
        by auto
      show ?thesis
        using r pos True last x v' cv(2)
        by (intro exI [of _ x] exI [of _ "after_args T args (elements v)"] exI [of _ "[]"]
              exI [of _ "m_capacity v - m_size v - 1"])
           (simp add: after_args_same)
    next
      case inner: False
      with pos have lt': "pos < m_size v" by simp
      from b BigCapacity_shift [OF inv True lt', where T = T and args = args and v' = v']
      obtain x where x: "braced_value T args (elements v) = Some x"
        and v': "v' = \<lparr>m_data = cells (take pos (after_args T args (elements v)) @ [x] @
                               drop pos (after_args T args (elements v)))
                          (m_capacity v - m_size v - 1),
              m_capacity = m_capacity v, m_size = m_size v + 1\<rparr>"
        by auto
      show ?thesis
        using r pos True inner x v' cv(2)
        by (intro exI [of _ x] exI [of _ "take pos (after_args T args (elements v))"]
              exI [of _ "drop pos (after_args T args (elements v))"]
              exI [of _ "m_capacity v - m_size v - 1"])
           (simp add: after_args_same)
    qed
  next
    case False
    with e pos have c: "CompletelyFilled T pos args v = Val v'"
      by (auto simp: Emplace_def Capacity_def Size_def split: res.splits)
    define es2 where "es2 = after_args T args
       (left_behind T (take pos (elements v)) @ drop pos (elements v))"
    define c where "c = (if m_size v = 0 then 1 else 2 * m_size v)"
    from c CompletelyFilled_full [OF inv fits False pos, where args = args and v' = v']
    obtain x where rel: "relocates T (take pos (elements v))"
      and x: "arg_value args (left_behind T (take pos (elements v)) @ drop pos (elements v))
                = Some x"
      and v': "v' = \<lparr>m_data = cells (take pos (elements v) @ [x] @ drop pos es2) (c - m_size v - 1),
                 m_capacity = c, m_size = m_size v + 1\<rparr>"
      unfolding es2_def c_def by auto
    note lb = left_behind_relocates [OF rel]
    have l2: "length es2 = m_size v"
      using lt cv(2) pos by (simp add: es2_def lb)
    have same: "drop pos es2 = drop pos (elements v)" if "\<not> moves_element args"
      using that lt by (simp add: es2_def after_args_same lb)
    have ck: "m_size v + 1 + (c - m_size v - 1) = c" by (simp add: c_def)
    show ?thesis
      using r pos False x v' cv(2) l2 same ck
      by (intro exI [of _ x] exI [of _ "take pos (elements v)"] exI [of _ "drop pos es2"]
            exI [of _ "c - m_size v - 1"])
         (simp add: lb c_def)
  qed
qed

text \<open>
  \<^verbatim>\<open>Emplace\<close> returns for an element type whose constructors and move assignment do not
  throw, when the arguments denote a value and the allocation succeeds.
\<close>

lemma Emplace_returns:
  assumes inv: "vector_inv v" and fits: "fits T v" and pos: "pos \<le> m_size v"
    and al: "m_capacity v \<le> m_size v \<longrightarrow> Allocate T (if m_size v = 0 then 1 else 2 * m_size v) \<noteq> None"
    and av: "arg_value args (elements v) \<noteq> None" and bv: "braced_value T args (elements v) \<noteq> None"
    and nothrow: "\<forall>y. \<not> copy_throws T y \<and> \<not> move_throws T y \<and> \<not> move_assign_throws T y"
  shows "\<exists>v'. Emplace T pos args v = Val (v', pos)"
proof -
  note cv = inv_cells [OF inv]
  have rel: "relocates T xs" for xs
    using nothrow by (simp add: relocates_def list_all_iff move_construct_def)
  have mc: "move_construct T y \<noteq> None" for y
    using nothrow by (simp add: move_construct_def)
  have at: "\<not> arg_throws T args x" for x
  proof (cases args)
    case (Forward r)
    with nothrow show ?thesis
      by (cases r) (simp_all add: copy_construct_def move_construct_def)
  next
    case (Args p b)
    then show ?thesis by simp
  qed
  have ma: "list_all (\<lambda>y. \<not> move_assign_throws T y) xs" for xs
    using nothrow by (simp add: list_all_iff)
  show ?thesis
  proof (cases "m_size v < m_capacity v")
    case True
    show ?thesis
    proof (cases "pos = m_size v")
      case last: True
      from av obtain x where x: "arg_value args (elements v) = Some x" by auto
      from EmplaceBack_Val [OF inv fits, where args = args and r = "m_size v"] x at True
      have "\<exists>v'. EmplaceBack T args v = Val (v', m_size v)" by auto
      then obtain v' where "EmplaceBack T args v = Val (v', m_size v)" ..
      with True last pos show ?thesis
        by (auto simp: Emplace_def BigCapacity_def Capacity_def Size_def)
    next
      case inner: False
      with pos have lt: "pos < m_size v" by simp
      from bv obtain x where x: "braced_value T args (elements v) = Some x" by auto
      from BigCapacity_shift [OF inv True lt, where T = T and args = args] x at mc ma nothrow
      have "\<exists>v'. BigCapacity T pos args v = Val v'" by auto
      then obtain v' where "BigCapacity T pos args v = Val v'" ..
      with True pos show ?thesis
        by (auto simp: Emplace_def Capacity_def Size_def)
    qed
  next
    case False
    have "length (left_behind T (take pos (elements v)) @ drop pos (elements v))
            = length (elements v)"
      using pos cv(2) by simp
    from arg_value_length [OF this, of args] av
    obtain x where x: "arg_value args (left_behind T (take pos (elements v)) @ drop pos (elements v))
                = Some x" by auto
    from False al have "Allocate T (if m_size v = 0 then 1 else 2 * m_size v) \<noteq> None" by simp
    with CompletelyFilled_full [OF inv fits False pos, where args = args] x at rel
    have "\<exists>v'. CompletelyFilled T pos args v = Val v'" by auto
    then obtain v' where "CompletelyFilled T pos args v = Val v'" ..
    with False pos show ?thesis
      by (auto simp: Emplace_def Capacity_def Size_def)
  qed
qed

subsection \<open>Sequences of appends\<close>

lemma EmplaceBack_step:
  assumes inv: "vector_inv v" and fits: "fits T v" and e: "EmplaceBack T args v = Val (v', r)"
  shows "vector_inv v'" and "fits T v'" and "m_size v' = m_size v + 1" and "r = m_size v"
    and "\<exists>x. arg_value args (elements v) = Some x \<and>
             elements v' = after_args T args (elements v) @ [x]"
    and "m_capacity v' =
           (if m_size v < m_capacity v then m_capacity v
            else if m_size v = 0 then 1 else 2 * m_size v)"
proof -
  define c where "c = (if m_size v < m_capacity v then m_capacity v
            else if m_size v = 0 then 1 else 2 * m_size v)"
  define es1 where "es1 = after_args T args (elements v)"
  note cv = inv_cells [OF inv]
  have l1: "length es1 = m_size v" by (simp add: es1_def cv(2))
  from fits have sz: "0 < sizeof T" "sizeof T \<le> PTRDIFF_MAX" "m_capacity v * sizeof T \<le> PTRDIFF_MAX"
    by (simp_all add: fits_def)
  from e EmplaceBack_Val [OF inv fits, where args = args and v' = v' and r = r]
  obtain x where x: "arg_value args (elements v) = Some x" and r: "r = m_size v"
    and v': "v' = \<lparr>m_data = cells (es1 @ [x]) (c - m_size v - 1), m_capacity = c,
                   m_size = m_size v + 1\<rparr>"
    and al: "\<not> m_size v < m_capacity v \<longrightarrow>
               Allocate T (if m_size v = 0 then 1 else 2 * m_size v) \<noteq> None"
    unfolding c_def es1_def by (auto split: if_splits)
  have lt: "m_size v < c" using cv(3) by (auto simp: c_def)
  then have ck: "c = m_size v + 1 + (c - m_size v - 1)" by simp
  have v'': "v' = \<lparr>m_data = cells (es1 @ [x] @ []) (c - m_size v - 1), m_capacity = c,
                   m_size = m_size v + 1\<rparr>"
    using v' by simp
  have l: "length es1 + length ([] :: 'a list) = m_size v" by (simp add: l1)
  note iv = inserted_vector [OF v'' l1 l ck]
  show "vector_inv v'" by (rule iv(1))
  show "m_size v' = m_size v + 1" using v' by simp
  show "r = m_size v" by (rule r)
  from iv(4) x show "\<exists>x. arg_value args (elements v) = Some x \<and>
             elements v' = after_args T args (elements v) @ [x]"
    by (simp add: es1_def)
  show "m_capacity v' =
           (if m_size v < m_capacity v then m_capacity v
            else if m_size v = 0 then 1 else 2 * m_size v)"
    using v' by (simp add: c_def)
  have "c * sizeof T \<le> PTRDIFF_MAX"
  proof (cases "m_size v < m_capacity v")
    case True
    with sz(3) show ?thesis by (simp add: c_def)
  next
    case False
    with al have a: "Allocate T (if m_size v = 0 then 1 else 2 * m_size v) \<noteq> None" by simp
    from Allocate_Some_exact(2) [OF a sz(1) growth_capacity(2) [OF inv fits]] False
    show ?thesis by (simp add: c_def)
  qed
  with sz v' show "fits T v'" by (simp add: fits_def)
qed

lemma do_append_step:
  assumes inv: "vector_inv v" and fits: "fits T v" and e: "do_append T a v = Val v'"
  shows "vector_inv v'" and "fits T v'" and "m_size v' = m_size v + 1"
    and "\<exists>x. arg_value (append_args a) (elements v) = Some x \<and>
             elements v' = after_args T (append_args a) (elements v) @ [x]"
proof -
  from e obtain r where "EmplaceBack T (append_args a) v = Val (v', r)"
    by (cases a; cases "EmplaceBack T (append_args a) v")
       (auto simp: PushBack_def state_of_def split: prod.splits)
  note s = EmplaceBack_step [OF inv fits this]
  show "vector_inv v'" and "fits T v'" and "m_size v' = m_size v + 1"
    and "\<exists>x. arg_value (append_args a) (elements v) = Some x \<and>
             elements v' = after_args T (append_args a) (elements v) @ [x]"
    by (rule s)+
qed

lemma appends_from:
  assumes "vector_inv v" and "fits T v" and "appends T as v = Val v'"
  shows "vector_inv v' \<and> fits T v' \<and> m_size v' = m_size v + length as \<and>
         elements v' = appended T (map append_args as) (elements v)"
  using assms
proof (induction as arbitrary: v)
  case Nil
  then show ?case by simp
next
  case (Cons a as)
  from Cons.prems(3) obtain v1 where a: "do_append T a v = Val v1"
    and rest: "appends T as v1 = Val v'"
    by (auto split: res.splits)
  note s = do_append_step [OF Cons.prems(1,2) a]
  from s(4) obtain x where x: "arg_value (append_args a) (elements v) = Some x"
    and el: "elements v1 = after_args T (append_args a) (elements v) @ [x]" by blast
  from Cons.IH [OF s(1,2) rest] s(3) x el show ?case by simp
qed

text \<open>Without a move out of the vector the elements appended earlier stay as they are.\<close>

lemma appends_nth:
  assumes "vector_inv v" and "fits T v" and "appends T as v = Val v'"
    and "\<forall>a\<in>set as. \<not> moves_element (append_args a)"
  shows "take (m_size v) (elements v') = elements v \<and>
     (\<forall>i<length as. at v' (m_size v + i) =
        arg_value (append_args (as ! i)) (take (m_size v + i) (elements v')) \<and>
        at v' (m_size v + i) \<noteq> None)"
  using assms
proof (induction as arbitrary: v)
  case Nil
  from inv_cells(2) [OF Nil.prems(1)] Nil.prems(3) show ?case by simp
next
  case (Cons a as)
  from Cons.prems(3) obtain v1 where a: "do_append T a v = Val v1"
    and rest: "appends T as v1 = Val v'"
    by (auto split: res.splits)
  note s = do_append_step [OF Cons.prems(1,2) a]
  from Cons.prems(4) have nm: "\<not> moves_element (append_args a)"
    and nms: "\<forall>a\<in>set as. \<not> moves_element (append_args a)" by simp_all
  from s(4) nm obtain x where x: "arg_value (append_args a) (elements v) = Some x"
    and el: "elements v1 = elements v @ [x]" by (auto simp: after_args_same)
  note l = inv_cells(2) [OF Cons.prems(1)]
  note ih0 = Cons.IH [OF s(1,2) rest nms]
  from ih0 have t1: "take (m_size v1) (elements v') = elements v1" by (rule conjunct1)
  from ih0 have ih: "\<forall>i<length as. at v' (m_size v1 + i) =
        arg_value (append_args (as ! i)) (take (m_size v1 + i) (elements v')) \<and>
        at v' (m_size v1 + i) \<noteq> None"
    by (rule conjunct2)
  note f = appends_from [OF s(1,2) rest]
  from f have inv': "vector_inv v'" and sz': "m_size v' = m_size v1 + length as" by simp_all
  have t0: "take (m_size v) (elements v') = elements v"
  proof -
    have "take (m_size v) (take (m_size v1) (elements v')) = take (m_size v) (elements v1)"
      by (simp only: t1)
    then show ?thesis using s(3) el l by (simp add: min_def)
  qed
  have nth: "elements v' ! m_size v = x"
  proof -
    have "take (m_size v1) (elements v') ! m_size v = elements v1 ! m_size v"
      by (simp only: t1)
    then show ?thesis using s(3) el l by (simp add: nth_append)
  qed
  have a0: "at v' (m_size v) = Some x"
    using at_elements [OF inv', of "m_size v"] sz' s(3) nth by simp
  show ?case
  proof (intro conjI allI impI)
    show "take (m_size v) (elements v') = elements v" by (rule t0)
  next
    fix i assume i: "i < length (a # as)"
    show "at v' (m_size v + i) =
        arg_value (append_args ((a # as) ! i)) (take (m_size v + i) (elements v'))"
    proof (cases i)
      case 0
      with a0 x t0 show ?thesis by simp
    next
      case (Suc j)
      with i have j: "j < length as" by simp
      have eq: "m_size v + i = m_size v1 + j" and nth: "(a # as) ! i = as ! j"
        using Suc s(3) by simp_all
      show ?thesis unfolding eq nth by (rule ih [rule_format, OF j, THEN conjunct1])
    qed
    show "at v' (m_size v + i) \<noteq> None"
    proof (cases i)
      case 0
      with a0 show ?thesis by simp
    next
      case (Suc j)
      with i have j: "j < length as" by simp
      have eq: "m_size v + i = m_size v1 + j"
        using Suc s(3) by simp
      show ?thesis unfolding eq by (rule ih [rule_format, OF j, THEN conjunct2])
    qed
  qed
qed

text \<open>
  A sequence of appends of values from outside the vector returns when the storage it
  needs is within the limit, no allocation fails and no constructor throws.
\<close>

lemma appends_succeed:
  assumes "vector_inv v" and "fits T v"
    and "2 * (m_size v + length as) * sizeof T \<le> PTRDIFF_MAX"
    and "\<forall>b. \<not> alloc_fails T b"
    and "\<forall>a\<in>set as. \<not> refers_to_element (append_args a) \<and> arg_value (append_args a) [] \<noteq> None"
    and "\<forall>x. \<not> copy_throws T x \<and> \<not> move_throws T x"
  shows "\<exists>v'. appends T as v = Val v'"
  using assms
proof (induction as arbitrary: v)
  case Nil
  show ?case by simp
next
  case (Cons a as)
  note inv = Cons.prems(1) and fits = Cons.prems(2)
  from fits have sz: "0 < sizeof T" "sizeof T \<le> PTRDIFF_MAX" by (simp_all add: fits_def)
  from Cons.prems(5) have ext: "\<not> refers_to_element (append_args a)"
    and def: "arg_value (append_args a) [] \<noteq> None" by simp_all
  from def arg_value_external(1) [OF ext, of "elements v"]
  obtain x where x: "arg_value (append_args a) (elements v) = Some x" by auto
  have nt: "\<not> arg_throws T (append_args a) x"
  proof (cases "append_args a")
    case (Forward r)
    with Cons.prems(6) show ?thesis
      by (cases r) (simp_all add: copy_construct_def move_construct_def)
  next
    case (Args p b)
    then show ?thesis by simp
  qed
  have rel: "relocates T xs" for xs
    using Cons.prems(6) by (simp add: relocates_def list_all_iff move_construct_def)
  have al: "Allocate T (if m_size v = 0 then 1 else 2 * m_size v) \<noteq> None"
  proof -
    have "2 * m_size v * sizeof T \<le> 2 * (m_size v + length (a # as)) * sizeof T"
      by (intro mult_le_mono1 mult_le_mono2) simp
    from this Cons.prems(3) have "2 * m_size v * sizeof T \<le> PTRDIFF_MAX" by (rule order_trans)
    with sz have le: "(if m_size v = 0 then 1 else 2 * m_size v) * sizeof T \<le> PTRDIFF_MAX"
      by simp
    from le PTRDIFF_MAX_le have "(if m_size v = 0 then 1 else 2 * m_size v) * sizeof T \<le> SIZE_MAX"
      by (rule order_trans)
    from Allocate_exact [OF sz(1) this] le Cons.prems(4) show ?thesis by simp
  qed
  have "\<exists>v1. EmplaceBack T (append_args a) v = Val (v1, m_size v)"
    unfolding EmplaceBack_Val [OF inv fits] using x nt rel al
    by (cases "m_size v < m_capacity v") simp_all
  then obtain v1 where e: "EmplaceBack T (append_args a) v = Val (v1, m_size v)" ..
  then have d: "do_append T a v = Val v1"
    by (cases a) (simp_all add: PushBack_def)
  note s = do_append_step [OF inv fits d]
  from s(3) Cons.prems(3) have "2 * (m_size v1 + length as) * sizeof T \<le> PTRDIFF_MAX" by simp
  from Cons.IH [OF s(1,2) this Cons.prems(4) _ Cons.prems(6)] Cons.prems(5)
  obtain v' where "appends T as v1 = Val v'" by auto
  with d show ?case by simp
qed

section \<open>Evaluation on concrete vectors\<close>

lemmas alloc_defs = Allocate_def size_t_mul_def SIZE_MAX_def PTRDIFF_MAX_def

lemmas eval_defs = Emplace_def CompletelyFilled_def BigCapacity_def EmplaceBack_def PushBack_def
  Insert_def Reserve_def Resize_def Erase_def PopBack_def CopyAssign_def Vector_copy_def
  Vector_dtor_def Swap_def
  Capacity_def Size_def
  copy_construct_def move_construct_def construct_at_def construct_in_def construct_from_def
  direct_init_def list_init_def copy_assign_def move_assign_def assign_value_def
  eval_nat_numeral

lemma size_t_mul_1_2: "size_t_mul (Suc 0) (Suc (Suc 0)) = 2"
  by (simp add: alloc_defs)

lemma size_t_mul_2_2: "size_t_mul (Suc (Suc 0)) (Suc (Suc 0)) = 4"
  by (simp add: alloc_defs)

lemma size_t_mul_3_2: "size_t_mul (Suc (Suc (Suc 0))) (Suc (Suc 0)) = 6"
  by (simp add: alloc_defs)

lemma Allocate_int_type:
  "Allocate int_type 1 = Some (replicate 1 Raw)"
  "Allocate int_type 2 = Some (replicate 2 Raw)"
  "Allocate int_type 4 = Some (replicate 4 Raw)"
  "Allocate int_type 5 = Some (replicate 5 Raw)"
  "Allocate int_type 6 = Some (replicate 6 Raw)"
  by (simp_all add: alloc_defs int_type_def)

lemma Allocate_4_throwing_copy: "Allocate throwing_copy 4 = Some (replicate 4 Raw)"
  by (simp add: alloc_defs throwing_copy_def)

lemma Allocate_4_resource: "Allocate resource 4 = Some (replicate 4 Raw)"
  by (simp add: alloc_defs resource_def)

lemma int_type_nothrow:
  "\<forall>y. \<not> copy_throws int_type y \<and> \<not> move_throws int_type y \<and> \<not> move_assign_throws int_type y"
  "\<forall>y. \<not> copy_throws int_type y \<and> \<not> move_throws int_type y"
  "\<forall>b. \<not> alloc_fails int_type b"
  by (simp_all add: int_type_def)

section \<open>The claims\<close>

text \<open>
  C1. Copy assignment \<open>dst = src\<close> with \<open>src.size \<le> dst.capacity\<close> reuses the storage
  of \<open>dst\<close>; afterwards \<open>dst\<close> has the size of \<open>src\<close>, its capacity is unchanged and
  its elements are those of \<open>src\<close>, also when both sizes are equal. The code copies
  elements only inside the branches \<^verbatim>\<open>size_ < rhs.size_\<close> and \<^verbatim>\<open>size_ > rhs.size_\<close>:
  for two vectors of size 2 the destination keeps its own elements \<open>[1, 2]\<close> and does
  not receive \<open>[3, 4]\<close>.
\<close>

theorem CopyAssign_equal_size_example:
  "CopyAssign int_type \<lparr>m_data = [Obj 3, Obj 4], m_capacity = 2, m_size = 2\<rparr>
       \<lparr>m_data = [Obj 1, Obj 2], m_capacity = 2, m_size = 2\<rparr>
     = Val \<lparr>m_data = [Obj 1, Obj 2], m_capacity = 2, m_size = 2\<rparr> \<and>
   elements \<lparr>m_data = [Obj 1, Obj 2], m_capacity = 2, m_size = 2\<rparr> \<noteq>
     elements \<lparr>m_data = [Obj (3::int), Obj 4], m_capacity = 2, m_size = 2\<rparr>"
  by (simp add: CopyAssign_def Capacity_def elements_def)

text \<open>The same for any two vectors of one size: the assignment changes nothing.\<close>

lemma CopyAssign_same_size_noop:
  "m_size rhs = m_size v \<Longrightarrow> m_size v \<le> Capacity v \<Longrightarrow> CopyAssign T rhs v = Val v"
  by (simp add: CopyAssign_def)

text \<open>
  C2. When \<^verbatim>\<open>Emplace\<close> on a full vector fails in one of the three migration steps,
  exactly the elements already constructed in the new block are destroyed, the block is
  released and the vector is untouched. The code does so only when the relocation of
  the suffix fails. First example: the construction of the new element throws after
  the prefix \<open>[5]\<close> was copied; the block is released while it still holds the copy of
  5. Second example: the copy of the prefix throws; the handler runs
  \<^verbatim>\<open>std::destroy_n(new_data + offset, 1)\<close> on a cell that was never constructed. Third
  example: the elements are relocated by move and the construction of the new element
  throws; the first element of the vector is left moved-from.
\<close>

theorem Emplace_full_failure_example:
  "Emplace throwing_copy 1 (Args None None) \<lparr>m_data = [Obj 5, Obj 6], m_capacity = 2, m_size = 2\<rparr>
     = Raise (elem_exn, \<lparr>m_data = [Obj 5, Obj 6], m_capacity = 2, m_size = 2\<rparr>,
              [Obj 5, Raw, Raw, Raw]) \<and>
   Emplace throwing_copy 1 (Args (Some 9) (Some 9))
       \<lparr>m_data = [Obj 1, Obj 6], m_capacity = 2, m_size = 2\<rparr> = Undef \<and>
   Emplace resource 1 (Args None None) \<lparr>m_data = [Obj 5, Obj 6], m_capacity = 2, m_size = 2\<rparr>
     = Raise (elem_exn, \<lparr>m_data = [Obj 0, Obj 6], m_capacity = 2, m_size = 2\<rparr>,
              [Obj 5, Raw, Raw, Raw])"
  using Allocate_4_throwing_copy Allocate_4_resource
  by (simp add: eval_defs size_t_mul_2_2) (simp add: throwing_copy_def resource_def)

text \<open>
  C3, as stated: after a move construction or a move assignment the source has size 0
  and capacity 0. Move assignment is a swap: assigning \<open>[2, 3]\<close> to a vector holding
  \<open>[1]\<close> leaves the source with size 1 and capacity 1.
\<close>

theorem MoveAssign_source_example:
  "\<not> (m_size (snd (MoveAssign \<lparr>m_data = [Obj 2, Obj 3], m_capacity = 2, m_size = 2\<rparr>
                      \<lparr>m_data = [Obj (1::int)], m_capacity = 1, m_size = 1\<rparr>)) = 0 \<and>
      Capacity (snd (MoveAssign \<lparr>m_data = [Obj 2, Obj 3], m_capacity = 2, m_size = 2\<rparr>
                      \<lparr>m_data = [Obj (1::int)], m_capacity = 1, m_size = 1\<rparr>)) = 0)"
  by (simp add: MoveAssign_def Swap_def Capacity_def)

text \<open>
  C3, amended: after the move construction \<^verbatim>\<open>Vector(Vector&&)\<close> the source has size 0 and
  capacity 0 and the new vector holds the elements of the source; after the move
  assignment \<^verbatim>\<open>operator=(Vector&&)\<close> the destination holds the elements of the source
  and the source holds the former state of the destination (its size, capacity and
  elements). Both are total functions of the two states: they never fail.
\<close>

theorem move_transfers_state:
  "Vector_move other = (other, Vector_default) \<and>
   m_size (snd (Vector_move other)) = 0 \<and> Capacity (snd (Vector_move other)) = 0 \<and>
   elements (fst (Vector_move other)) = elements other \<and>
   MoveAssign rhs v = (rhs, v) \<and>
   elements (fst (MoveAssign rhs v)) = elements rhs \<and>
   m_size (snd (MoveAssign rhs v)) = m_size v \<and>
   Capacity (snd (MoveAssign rhs v)) = Capacity v \<and>
   elements (snd (MoveAssign rhs v)) = elements v"
  by (simp add: Vector_move_def MoveAssign_def Swap_def Vector_default_def Capacity_def
      elements_def)

text \<open>\<^verbatim>\<open>Swap\<close> exchanges the two states, and with them the two capacities.\<close>

lemma Swap_exchanges:
  "Swap v other = (other, v)"
  "Capacity (fst (Swap v other)) = Capacity other"
  "Capacity (snd (Swap v other)) = Capacity v"
  by (simp_all add: Swap_def Capacity_def)

text \<open>
  C4. When \<^verbatim>\<open>PushBack\<close> or \<^verbatim>\<open>EmplaceBack\<close> takes the growth path and the construction
  \<^verbatim>\<open>T(args...)\<close> of the new element fails, the vector after the failure is the vector
  before the call (size, capacity and every element), for every element type, also one
  whose elements are relocated by move: the element is constructed before any existing
  element is touched. The block that is released holds no object. The vector is one
  that satisfies the invariant and whose storage is within the limit of an object.
\<close>

theorem EmplaceBack_growth_failure:
  assumes "vector_inv v" and "fits T v" and "Capacity v \<le> Size v"
    and "direct_init T args (m_data v) = Raise ()"
  shows "EmplaceBack T args v =
           (if Allocate T (if Size v = 0 then 1 else 2 * Size v) = None
            then Raise (bad_alloc, v, [])
            else Raise (elem_exn, v, replicate (if Size v = 0 then 1 else 2 * Size v) Raw)) \<and>
         PushBack T args v =
           (if Allocate T (if Size v = 0 then 1 else 2 * Size v) = None
            then Raise (bad_alloc, v, [])
            else Raise (elem_exn, v, replicate (if Size v = 0 then 1 else 2 * Size v) Raw))"
proof -
  from assms(3) have full: "\<not> m_size v < m_capacity v" by (simp add: Capacity_def Size_def)
  note cv = inv_cells [OF assms(1)]
  from cv(1,3) full have "m_data v = cells (elements v) 0" by simp
  with assms(4) direct_init_cells [of T args "elements v" 0]
  have "(arg_value args (elements v) = None \<and> \<not> refers_to_element args) \<or>
        (\<exists>x. arg_value args (elements v) = Some x \<and> arg_throws T args x)"
    by (auto split: option.splits if_splits)
  then have e: "EmplaceBack T args v =
           (if Allocate T (if m_size v = 0 then 1 else 2 * m_size v) = None
            then Raise (bad_alloc, v, [])
            else Raise (elem_exn, v, replicate (if m_size v = 0 then 1 else 2 * m_size v) Raw))"
    unfolding EmplaceBack_full [OF assms(1,2) full] by auto
  show ?thesis
    unfolding PushBack_def e Size_def by simp
qed

theorem EmplaceBack_growth_failure_witness:
  "vector_inv \<lparr>m_data = [Obj (5::int), Obj 6], m_capacity = 2, m_size = 2\<rparr> \<and>
   fits int_type \<lparr>m_data = [Obj (5::int), Obj 6], m_capacity = 2, m_size = 2\<rparr> \<and>
   fits throwing_copy \<lparr>m_data = [Obj (5::int), Obj 6], m_capacity = 2, m_size = 2\<rparr> \<and>
   Capacity \<lparr>m_data = [Obj (5::int), Obj 6], m_capacity = 2, m_size = 2\<rparr>
     \<le> Size \<lparr>m_data = [Obj (5::int), Obj 6], m_capacity = 2, m_size = 2\<rparr> \<and>
   direct_init int_type (Args None None) [Obj 5, Obj 6] = Raise () \<and>
   direct_init throwing_copy (Forward (Lvalue 1)) [Obj 5, Obj 6] = Raise () \<and>
   EmplaceBack int_type (Args None None) \<lparr>m_data = [Obj 5, Obj 6], m_capacity = 2, m_size = 2\<rparr>
     = Raise (elem_exn, \<lparr>m_data = [Obj 5, Obj 6], m_capacity = 2, m_size = 2\<rparr>,
              replicate 4 Raw) \<and>
   PushBack throwing_copy (Forward (Lvalue 1))
       \<lparr>m_data = [Obj 5, Obj 6], m_capacity = 2, m_size = 2\<rparr>
     = Raise (elem_exn, \<lparr>m_data = [Obj 5, Obj 6], m_capacity = 2, m_size = 2\<rparr>,
              replicate 4 Raw)"
proof -
  let ?v = "\<lparr>m_data = [Obj (5::int), Obj 6], m_capacity = 2, m_size = 2\<rparr>"
  have inv: "vector_inv ?v" by (simp add: vector_inv_def)
  have f1: "fits int_type ?v" by (simp add: fits_def int_type_def PTRDIFF_MAX_def)
  have f2: "fits throwing_copy ?v" by (simp add: fits_def throwing_copy_def PTRDIFF_MAX_def)
  have full: "Capacity ?v \<le> Size ?v" by (simp add: Capacity_def Size_def)
  have d1: "direct_init int_type (Args None None) (m_data ?v) = Raise ()"
    by (simp add: direct_init_def)
  have d2: "direct_init throwing_copy (Forward (Lvalue 1)) (m_data ?v) = Raise ()"
    by (simp add: direct_init_def construct_from_def copy_construct_def throwing_copy_def)
  have c: "(if Size ?v = 0 then 1 else 2 * Size ?v) = 4" by (simp add: Size_def)
  from EmplaceBack_growth_failure [OF inv f1 full d1, THEN conjunct1]
  have r1: "EmplaceBack int_type (Args None None) ?v = Raise (elem_exn, ?v, replicate 4 Raw)"
    unfolding c Allocate_int_type by simp
  from EmplaceBack_growth_failure [OF inv f2 full d2, THEN conjunct2]
  have r2: "PushBack throwing_copy (Forward (Lvalue 1)) ?v = Raise (elem_exn, ?v, replicate 4 Raw)"
    unfolding c Allocate_4_throwing_copy by simp
  from inv f1 f2 full d1 d2 r1 r2 show ?thesis by simp
qed

text \<open>
  C5, as stated: across every operation the capacity never decreases. \<^verbatim>\<open>Swap\<close> (and
  move assignment, which is \<^verbatim>\<open>Swap\<close>) gives the vector the capacity of the other one:
  swapping a vector of capacity 2 with an empty vector leaves it with capacity 0.
\<close>

theorem Swap_capacity_example:
  "exec int_type (OpSwap Vector_default) \<lparr>m_data = [Obj 1, Obj 2], m_capacity = 2, m_size = 2\<rparr>
     = Val Vector_default \<and>
   \<not> Capacity \<lparr>m_data = [Obj (1::int), Obj 2], m_capacity = 2, m_size = 2\<rparr>
       \<le> Capacity (Vector_default :: int Vector)"
  by (simp add: Swap_def Vector_default_def Capacity_def)

text \<open>
  C5, amended: across every operation other than \<^verbatim>\<open>Swap\<close> and move assignment, which
  exchange the capacities of two vectors, the capacity never decreases, whether the
  operation returns or throws; \<^verbatim>\<open>PopBack\<close>, \<^verbatim>\<open>Erase\<close> and a \<^verbatim>\<open>Resize\<close> to at most the
  capacity leave it unchanged.
\<close>

theorem capacity_never_decreases:
  assumes "exec T op v = Val v' \<or> exec T op v = Raise (e, v', blk)" and "\<not> exchanges op"
  shows "Capacity v \<le> Capacity v' \<and>
     (op = OpPopBack \<or> (\<exists>pos. op = OpErase pos) \<or> (\<exists>n. op = OpResize n \<and> n \<le> Capacity v)
        \<longrightarrow> Capacity v' = Capacity v)"
proof -
  from exec_keeps_capacity [OF assms(2), of v T] assms(1)
  have mono: "Capacity v \<le> Capacity v'" by (auto simp: Capacity_def)
  have pop: "Capacity v' = Capacity v" if "op = OpPopBack"
    using that assms(1) PopBack_same_capacity [of v] by (auto simp: Capacity_def)
  have erase: "Capacity v' = Capacity v" if "op = OpErase pos" for pos
    using that assms(1) Erase_same_capacity [of v T pos] by (auto simp: Capacity_def)
  have resize: "Capacity v' = Capacity v" if "op = OpResize n" and "n \<le> Capacity v" for n
    using that assms(1) Resize_same_capacity [of n v T] by (auto simp: Capacity_def)
  from mono pop erase resize show ?thesis by blast
qed

theorem capacity_never_decreases_witness:
  "exec int_type (OpResize 1) \<lparr>m_data = [Obj 1, Obj 2], m_capacity = 2, m_size = 2\<rparr>
     = Val \<lparr>m_data = [Obj 1, Raw], m_capacity = 2, m_size = 1\<rparr> \<and>
   \<not> exchanges (OpResize 1 :: int operation) \<and>
   Capacity \<lparr>m_data = [Obj (1::int), Obj 2], m_capacity = 2, m_size = 2\<rparr>
     \<le> Capacity \<lparr>m_data = [Obj (1::int), Raw], m_capacity = 2, m_size = 1\<rparr> \<and>
   Capacity \<lparr>m_data = [Obj (1::int), Raw], m_capacity = 2, m_size = 1\<rparr>
     = Capacity \<lparr>m_data = [Obj (1::int), Obj 2], m_capacity = 2, m_size = 2\<rparr>"
proof -
  have a: "exec int_type (OpResize 1) \<lparr>m_data = [Obj 1, Obj 2], m_capacity = 2, m_size = 2\<rparr>
     = Val \<lparr>m_data = [Obj 1, Raw], m_capacity = 2, m_size = 1\<rparr>"
    by (simp add: Resize_def Reserve_def Capacity_def eval_nat_numeral)
  have b: "\<not> exchanges (OpResize 1 :: int operation)" by simp
  from capacity_never_decreases [OF disjI1 [OF a] b] a b show ?thesis
    by (simp add: Capacity_def)
qed

text \<open>
  C6, as stated: \<^verbatim>\<open>Reserve(n)\<close> with \<open>n\<close> above the capacity makes the capacity exactly \<open>n\<close>
  and keeps the elements. \<^verbatim>\<open>RawMemory::Allocate\<close> computes \<^verbatim>\<open>n * sizeof(T)\<close> in \<^verbatim>\<open>size_t\<close>
  without a check. For \<^verbatim>\<open>int\<close> and \<open>n = 2\<^sup>6\<^sup>2 + 1\<close> the product wraps to 4 bytes, one cell:
  on a vector of three elements the relocation writes outside the storage; on a vector
  of one element the call returns, and the vector records the capacity \<open>n\<close> over a
  storage of one cell.
\<close>

theorem Reserve_wrap_example:
  "Capacity \<lparr>m_data = [Obj (1::int), Obj 2, Obj 3], m_capacity = 3, m_size = 3\<rparr>
     < SIZE_MAX div 4 + 2 \<and>
   Reserve int_type (SIZE_MAX div 4 + 2)
       \<lparr>m_data = [Obj 1, Obj 2, Obj 3], m_capacity = 3, m_size = 3\<rparr> = Undef \<and>
   Reserve int_type (SIZE_MAX div 4 + 2) \<lparr>m_data = [Obj 1], m_capacity = 1, m_size = 1\<rparr>
     = Val \<lparr>m_data = [Obj 1], m_capacity = SIZE_MAX div 4 + 2, m_size = 1\<rparr> \<and>
   \<not> vector_inv \<lparr>m_data = [Obj (1::int)], m_capacity = SIZE_MAX div 4 + 2, m_size = 1\<rparr>"
proof -
  have a: "Allocate int_type (SIZE_MAX div 4 + 2) = Some [Raw]"
    by (simp add: alloc_defs int_type_def)
  have n: "\<not> SIZE_MAX div 4 + 2 \<le> 3" "\<not> SIZE_MAX div 4 + 2 \<le> 1" "SIZE_MAX div 4 + 2 \<noteq> 1"
    "3 < SIZE_MAX div 4 + 2"
    by (simp_all add: SIZE_MAX_def)
  have i: "nothrow_move_constructible int_type" "move_construct int_type x = Some x" for x
    by (simp_all add: int_type_def move_construct_def)
  show ?thesis
    using a n i by (simp add: Reserve_def Capacity_def vector_inv_def numeral_3_eq_3)
qed

text \<open>
  C6, amended: \<^verbatim>\<open>Reserve(n)\<close> with \<open>n\<close> at most the capacity returns the vector as it is,
  without allocating, relocating or failing. With \<open>n\<close> above the capacity and
  \<^verbatim>\<open>n * sizeof(T)\<close> within \<^verbatim>\<open>size_t\<close>, a call that returns has made the capacity exactly
  \<open>n\<close> and kept the size and the elements, in order; and the call does return when the
  allocation succeeds and no element throws on relocation.
\<close>

theorem Reserve_spec:
  assumes "vector_inv v" and "0 < sizeof T" and "n * sizeof T \<le> SIZE_MAX"
  shows "(n \<le> Capacity v \<longrightarrow> Reserve T n v = Val v) \<and>
     (Capacity v < n \<longrightarrow>
        (\<forall>v'. Reserve T n v = Val v' \<longrightarrow>
           Capacity v' = n \<and> Size v' = Size v \<and> elements v' = elements v \<and>
           (\<forall>i<Size v. at v' i = at v i) \<and> vector_inv v') \<and>
        (n * sizeof T \<le> PTRDIFF_MAX \<and> \<not> alloc_fails T (n * sizeof T) \<and>
         (\<forall>x\<in>set (elements v). \<not> copy_throws T x \<and> \<not> move_throws T x)
           \<longrightarrow> (\<exists>v'. Reserve T n v = Val v')))"
proof (intro conjI impI allI)
  assume "n \<le> Capacity v"
  then show "Reserve T n v = Val v" by (simp add: Reserve_def)
next
  fix v' assume n: "Capacity v < n" and r: "Reserve T n v = Val v'"
  note cv = inv_cells [OF assms(1)]
  from n cv(3) have le: "m_size v \<le> n" by (simp add: Capacity_def)
  from r have v': "v' = \<lparr>m_data = cells (elements v) (n - m_size v), m_capacity = n,
                          m_size = m_size v\<rparr>"
    unfolding Reserve_grows [OF assms(1) n assms(2,3)] by (simp split: if_splits)
  then have v'': "v' = \<lparr>m_data = cells (elements v) (n - m_size v),
                         m_capacity = length (elements v) + (n - m_size v),
                         m_size = length (elements v)\<rparr>"
    using le cv(2) by simp
  show "Capacity v' = n" using v' by (simp add: Capacity_def)
  show "Size v' = Size v" using v' by (simp add: Size_def)
  show "elements v' = elements v" unfolding v'' by (rule elements_cells)
  show "vector_inv v'" unfolding v'' by (rule cells_inv)
  fix i assume "i < Size v"
  then have i: "i < m_size v" by (simp add: Size_def)
  with cv(2) have "i < length (elements v)" by simp
  from at_cells [OF this] have "at v' i = Some (elements v ! i)" unfolding v'' .
  with at_elements [OF assms(1) i] show "at v' i = at v i" by simp
next
  assume n: "Capacity v < n"
    and ok: "n * sizeof T \<le> PTRDIFF_MAX \<and> \<not> alloc_fails T (n * sizeof T) \<and>
         (\<forall>x\<in>set (elements v). \<not> copy_throws T x \<and> \<not> move_throws T x)"
  from ok have al: "Allocate T n \<noteq> None"
    unfolding Allocate_exact [OF assms(2,3)] by simp
  from ok have rel: "relocates T (elements v)"
    by (simp add: relocates_def list_all_iff move_construct_def)
  from al rel show "\<exists>v'. Reserve T n v = Val v'"
    unfolding Reserve_grows [OF assms(1) n assms(2,3)] by simp
qed

theorem Reserve_spec_witness:
  "vector_inv \<lparr>m_data = [Obj (1::int), Obj 2, Raw], m_capacity = 3, m_size = 2\<rparr> \<and>
   0 < sizeof int_type \<and> 5 * sizeof int_type \<le> SIZE_MAX \<and>
   Reserve int_type 3 \<lparr>m_data = [Obj 1, Obj 2, Raw], m_capacity = 3, m_size = 2\<rparr>
     = Val \<lparr>m_data = [Obj 1, Obj 2, Raw], m_capacity = 3, m_size = 2\<rparr> \<and>
   Reserve int_type 5 \<lparr>m_data = [Obj 1, Obj 2, Raw], m_capacity = 3, m_size = 2\<rparr>
     = Val \<lparr>m_data = [Obj 1, Obj 2, Raw, Raw, Raw], m_capacity = 5, m_size = 2\<rparr> \<and>
   Capacity \<lparr>m_data = [Obj (1::int), Obj 2, Raw, Raw, Raw], m_capacity = 5, m_size = 2\<rparr> = 5 \<and>
   elements \<lparr>m_data = [Obj (1::int), Obj 2, Raw, Raw, Raw], m_capacity = 5, m_size = 2\<rparr>
     = elements \<lparr>m_data = [Obj (1::int), Obj 2, Raw], m_capacity = 3, m_size = 2\<rparr>"
proof -
  let ?v = "\<lparr>m_data = [Obj (1::int), Obj 2, Raw], m_capacity = 3, m_size = 2\<rparr>"
  let ?v' = "\<lparr>m_data = [Obj (1::int), Obj 2, Raw, Raw, Raw], m_capacity = 5, m_size = 2\<rparr>"
  have inv: "vector_inv ?v" by (simp add: vector_inv_def)
  have sz: "0 < sizeof int_type" by (simp add: int_type_def)
  have b3: "3 * sizeof int_type \<le> SIZE_MAX" and b5: "5 * sizeof int_type \<le> SIZE_MAX"
    by (simp_all add: int_type_def SIZE_MAX_def)
  have small: "3 \<le> Capacity ?v" and large: "Capacity ?v < 5"
    by (simp_all add: Capacity_def)
  have r: "Reserve int_type 5 ?v = Val ?v'"
    using Allocate_int_type(4)
    by (simp add: Reserve_def Capacity_def move_construct_def eval_nat_numeral)
       (simp add: int_type_def)
  from Reserve_spec [OF inv sz b3, THEN conjunct1, THEN mp, OF small]
  have noop: "Reserve int_type 3 ?v = Val ?v" .
  from Reserve_spec [OF inv sz b5, THEN conjunct2, THEN mp, OF large, THEN conjunct1, THEN spec,
      THEN mp, OF r]
  have "Capacity ?v' = 5" and "elements ?v' = elements ?v" by blast+
  with inv sz b5 noop r show ?thesis by blast
qed

text \<open>
  C7. An \<^verbatim>\<open>Insert\<close> of a value at position \<open>i\<close> into a full vector holding \<open>e0..e(n-1)\<close>
  leaves \<open>e0..e(i-1)\<close>, the value, \<open>ei..e(n-1)\<close>. \<^verbatim>\<open>Insert\<close> takes the value by reference
  and \<^verbatim>\<open>CompletelyFilled\<close> relocates the prefix before it constructs the new element from
  that reference: for a type that is relocated by move and whose moved-from value is 0,
  \<^verbatim>\<open>v.Insert(v.cbegin() + 1, v[0])\<close> on the full vector \<open>[5, 6]\<close> leaves \<open>[5, 0, 6]\<close>. The
  branch with spare capacity builds a temporary first and leaves \<open>[5, 5, 6]\<close>, and
  \<^verbatim>\<open>PushBack(v[0])\<close> on the full vector constructs the new element first and leaves
  \<open>[5, 6, 5]\<close>.
\<close>

theorem Insert_alias_example:
  "Insert resource 1 (Element 0) \<lparr>m_data = [Obj 5, Obj 6], m_capacity = 2, m_size = 2\<rparr>
     = Val (\<lparr>m_data = [Obj 5, Obj 0, Obj 6, Raw], m_capacity = 4, m_size = 3\<rparr>, 1) \<and>
   elements \<lparr>m_data = [Obj 5, Obj 0, Obj 6, Raw], m_capacity = 4, m_size = 3\<rparr>
     \<noteq> [5, 5, 6 :: int] \<and>
   Insert resource 1 (Element 0) \<lparr>m_data = [Obj 5, Obj 6, Raw], m_capacity = 3, m_size = 2\<rparr>
     = Val (\<lparr>m_data = [Obj 5, Obj 5, Obj 6], m_capacity = 3, m_size = 3\<rparr>, 1) \<and>
   PushBack resource (Forward (Element 0)) \<lparr>m_data = [Obj 5, Obj 6], m_capacity = 2, m_size = 2\<rparr>
     = Val (\<lparr>m_data = [Obj 5, Obj 6, Obj 5, Raw], m_capacity = 4, m_size = 3\<rparr>)"
  using Allocate_4_resource
  by (simp add: eval_defs size_t_mul_2_2 elements_def) (simp add: resource_def)

text \<open>
  C9. Every public operation preserves the invariant of the class. \<^verbatim>\<open>operator=\<close> destroys
  the surplus elements of the destination, or constructs the missing ones, before
  \<^verbatim>\<open>std::copy\<close> assigns the common prefix, and sets \<^verbatim>\<open>size_\<close> last: when an assignment
  throws, \<^verbatim>\<open>size_\<close> is the old size over cells that were destroyed (first example,
  \<open>[1, 2, 3] = [4]\<close>) or there is an object above \<^verbatim>\<open>size_\<close> (second example,
  \<open>[1] = [4, 5]\<close> with capacity 3). \<^verbatim>\<open>BigCapacity\<close> moves the last element into the cell
  \<^verbatim>\<open>data_ + size_\<close> and increments \<^verbatim>\<open>size_\<close> after the assignments: when one throws, an
  object is left above \<^verbatim>\<open>size_\<close> (third example). And an \<^verbatim>\<open>Insert\<close> into a full vector
  whose elements are relocated by copy runs a destructor on raw memory when the copy
  of the prefix throws (fourth example), a call inside the contract on a vector that
  satisfies the invariant.
\<close>

theorem invariant_broken_example:
  "vector_inv \<lparr>m_data = [Obj (1::int), Obj 2, Obj 3], m_capacity = 3, m_size = 3\<rparr> \<and>
   vector_inv \<lparr>m_data = [Obj (4::int)], m_capacity = 1, m_size = 1\<rparr> \<and>
   exec throwing_assign (OpCopyAssign \<lparr>m_data = [Obj 4], m_capacity = 1, m_size = 1\<rparr>)
       \<lparr>m_data = [Obj 1, Obj 2, Obj 3], m_capacity = 3, m_size = 3\<rparr>
     = Raise (elem_exn, \<lparr>m_data = [Obj 1, Raw, Raw], m_capacity = 3, m_size = 3\<rparr>, []) \<and>
   \<not> vector_inv \<lparr>m_data = [Obj (1::int), Raw, Raw], m_capacity = 3, m_size = 3\<rparr> \<and>
   exec throwing_assign (OpCopyAssign \<lparr>m_data = [Obj 4, Obj 5], m_capacity = 2, m_size = 2\<rparr>)
       \<lparr>m_data = [Obj 1, Raw, Raw], m_capacity = 3, m_size = 1\<rparr>
     = Raise (elem_exn, \<lparr>m_data = [Obj 1, Obj 5, Raw], m_capacity = 3, m_size = 1\<rparr>, []) \<and>
   \<not> vector_inv \<lparr>m_data = [Obj (1::int), Obj 5, Raw], m_capacity = 3, m_size = 1\<rparr> \<and>
   exec throwing_assign (OpInsert 0 (Lvalue 4))
       \<lparr>m_data = [Obj 1, Obj 2, Raw], m_capacity = 3, m_size = 2\<rparr>
     = Raise (elem_exn, \<lparr>m_data = [Obj 1, Obj 1, Obj 2], m_capacity = 3, m_size = 2\<rparr>, []) \<and>
   \<not> vector_inv \<lparr>m_data = [Obj (1::int), Obj 1, Obj 2], m_capacity = 3, m_size = 2\<rparr> \<and>
   vector_inv \<lparr>m_data = [Obj (1::int), Obj 6], m_capacity = 2, m_size = 2\<rparr> \<and>
   exec throwing_copy (OpInsert 1 (Lvalue 9))
       \<lparr>m_data = [Obj 1, Obj 6], m_capacity = 2, m_size = 2\<rparr> = Undef"
  using Allocate_4_throwing_copy
  by (simp add: eval_defs vector_inv_def size_t_mul_2_2)
     (simp add: throwing_assign_def throwing_copy_def)

end
